theory Spec2Isabelle
  imports Main "HOL-Library.Sublist"
begin

section \<open>The transcoding pipeline of \<^verbatim>\<open>server.js\<close>\<close>

text \<open>
  The server receives an uploaded container file, probes it with \<^verbatim>\<open>ffprobe\<close>, runs one
  \<^verbatim>\<open>ffmpeg\<close> command per video, audio and accepted subtitle stream and writes a master
  playlist. The model is a shallow embedding:
  \<^item> the media engine is the environment, a \<open>world\<close>: what the n-th invocation of
    \<^verbatim>\<open>ffprobe\<close> answers, and whether an \<^verbatim>\<open>ffmpeg\<close> command ends or fails; the
    value of the clock is an argument of the function that reads it;
  \<^item> every effect of the code (a probe, an engine run, \<^verbatim>\<open>mkdirSync\<close>,
    \<^verbatim>\<open>writeFileSync\<close>) is appended to a trace of events, threaded through the functions;
  \<^item> a rejected promise or a thrown exception is the \<open>Inl\<close> of a sum, returned together
    with the trace so far;
  \<^item> the \<^verbatim>\<open>for\<close> loops over \<^verbatim>\<open>streams.video\<close>, \<^verbatim>\<open>streams.audio\<close> and
    \<^verbatim>\<open>streams.subtitle\<close> are recursions over the list that is left, with the loop
    counter \<open>i\<close> as an argument.
  File system calls are taken to succeed and \<^verbatim>\<open>console.log\<close> is left out.
\<close>

subsection \<open>Strings\<close>

definition nl :: char where
  "nl = CHR 0x0A"

definition dq :: char where
  "dq = CHR 0x22"

definition digit :: "nat \<Rightarrow> char" where
  "digit d = ''0123456789'' ! d"

text \<open>The decimal text of a number, as a template literal \<^verbatim>\<open>${i}\<close> and the
  concatenation \<^verbatim>\<open>Date.now() + '-'\<close> produce it for a non-negative integer.\<close>

function string_of_nat :: "nat \<Rightarrow> string" where
  "string_of_nat n =
     (if n < 10 then [digit n] else string_of_nat (n div 10) @ [digit (n mod 10)])"
  by pat_completeness auto
termination
  by (relation "measure id") auto

declare string_of_nat.simps [simp del]

text \<open>\<^verbatim>\<open>Array.prototype.join\<close> with a one-character separator.\<close>

fun join :: "char \<Rightarrow> string list \<Rightarrow> string" where
  "join sep [] = []"
| "join sep [x] = x"
| "join sep (x # y # ys) = x @ sep # join sep (y # ys)"

text \<open>\<^verbatim>\<open>path.join(a, b)\<close> for a normalised directory \<open>a\<close> and a single path
  component \<open>b\<close>.\<close>

definition path_join :: "string \<Rightarrow> string \<Rightarrow> string" where
  "path_join a b = a @ ''/'' @ b"

text \<open>\<^verbatim>\<open>path.parse(p).name\<close> of Node's POSIX \<^verbatim>\<open>path\<close> module: trailing slashes are
  dropped, the last component is the base, and the name is the base without its
  extension. The extension starts at the last dot of the base, unless that dot is the
  first character of the base or the base is \<^verbatim>\<open>..\<close>.\<close>

definition path_base :: "string \<Rightarrow> string" where
  "path_base p =
     rev (takeWhile (\<lambda>c. c \<noteq> CHR ''/'') (dropWhile (\<lambda>c. c = CHR ''/'') (rev p)))"

definition before_last_dot :: "string \<Rightarrow> string" where
  "before_last_dot b = rev (tl (dropWhile (\<lambda>c. c \<noteq> CHR ''.'') (rev b)))"

definition path_parse_name :: "string \<Rightarrow> string" where
  "path_parse_name p =
     (let base = path_base p in
      if CHR ''.'' \<notin> set base then base
      else if before_last_dot base = [] \<or> base = ''..'' then base
      else before_last_dot base)"

subsection \<open>The upload storage (lines 18-21) and the job identifier (line 190)\<close>

text \<open>\<open>now\<close> is the value of \<^verbatim>\<open>Date.now()\<close> when the storage names the file: the
  milliseconds since the epoch.\<close>

definition storage_filename :: "nat \<Rightarrow> string \<Rightarrow> string" where
  "storage_filename now originalname = string_of_nat now @ ''-'' @ originalname"

definition job_identifier :: "nat \<Rightarrow> string \<Rightarrow> string" where
  "job_identifier now originalname = path_parse_name (storage_filename now originalname)"

subsection \<open>The media engine\<close>

text \<open>One entry of \<^verbatim>\<open>metadata.streams\<close>. An absent \<^verbatim>\<open>codec_type\<close> or
  \<^verbatim>\<open>codec_name\<close> compares unequal to every literal of the code, as a string that is
  none of them does; \<^verbatim>\<open>tags.language\<close> is optional because the code tests it.\<close>

record stream_info =
  codec_type :: string
  codec_name :: string
  language :: "string option"

text \<open>A command built with \<^verbatim>\<open>ffmpeg(filePath)\<close>: the options in the order they are
  added, each a flag and its value, and the output file.\<close>

record ffmpeg_command =
  cmd_input :: string
  cmd_options :: "(string \<times> string) list"
  cmd_output :: string

datatype event =
    Probe string
  | Run ffmpeg_command
  | Mkdir string
  | WriteFile string string

type_synonym trace = "event list"

record world =
  ffprobe_result :: "nat \<Rightarrow> string \<Rightarrow> string + stream_info list"
  ffmpeg_result :: "ffmpeg_command \<Rightarrow> string option"

datatype error = ProbeError string | TranscodeError string | TypeError

fun is_probe :: "event \<Rightarrow> bool" where
  "is_probe (Probe p) = True"
| "is_probe e = False"

definition probe_count :: "trace \<Rightarrow> nat" where
  "probe_count tr = length (filter is_probe tr)"

text \<open>\<^verbatim>\<open>ffmpeg.ffprobe(filePath, cb)\<close>: the answer is the world's for this invocation,
  and the invocation is recorded.\<close>

definition ffprobe :: "world \<Rightarrow> string \<Rightarrow> trace \<Rightarrow> (string + stream_info list) \<times> trace" where
  "ffprobe w filePath tr = (ffprobe_result w (probe_count tr) filePath, tr @ [Probe filePath])"

text \<open>\<^verbatim>\<open>metadata.streams[streamIndex]\<close>: \<open>None\<close> is JavaScript's \<^verbatim>\<open>undefined\<close>.\<close>

definition stream_at :: "stream_info list \<Rightarrow> nat \<Rightarrow> stream_info option" where
  "stream_at md k = (if k < length md then Some (md ! k) else None)"

subsection \<open>analyzeStreams (lines 25-46)\<close>

record streams =
  video :: "nat list"
  audio :: "nat list"
  subtitle :: "nat list"

definition indices_of_type :: "string \<Rightarrow> stream_info list \<Rightarrow> nat list" where
  "indices_of_type ty md = filter (\<lambda>k. codec_type (md ! k) = ty) [0..<length md]"

definition classify :: "stream_info list \<Rightarrow> streams" where
  "classify md =
     \<lparr>video = indices_of_type ''video'' md,
      audio = indices_of_type ''audio'' md,
      subtitle = indices_of_type ''subtitle'' md\<rparr>"

definition analyzeStreams :: "world \<Rightarrow> string \<Rightarrow> trace \<Rightarrow> (error + streams) \<times> trace" where
  "analyzeStreams w filePath tr =
     (case ffprobe w filePath tr of
        (Inl err, tr1) \<Rightarrow> (Inl (ProbeError err), tr1)
      | (Inr md, tr1) \<Rightarrow> (Inr (classify md), tr1))"

subsection \<open>isAudioStreamAAC (lines 48-60)\<close>

definition isAudioStreamAAC :: "world \<Rightarrow> string \<Rightarrow> nat \<Rightarrow> trace \<Rightarrow> (error + bool) \<times> trace" where
  "isAudioStreamAAC w filePath streamIndex tr =
     (case ffprobe w filePath tr of
        (Inl err, tr1) \<Rightarrow> (Inl (ProbeError err), tr1)
      | (Inr md, tr1) \<Rightarrow>
          (case stream_at md streamIndex of
             None \<Rightarrow> (Inr False, tr1)
           | Some s \<Rightarrow>
               if codec_type s = ''audio'' then (Inr (codec_name s = ''aac''), tr1)
               else (Inr False, tr1)))"

subsection \<open>createHLSForStreams (lines 63-186)\<close>

text \<open>\<^verbatim>\<open>streamInfo?.tags?.language || `und`\<close>: an absent stream, an absent tag and the
  empty string all give \<^verbatim>\<open>und\<close>.\<close>

definition lang_of :: "stream_info option \<Rightarrow> string" where
  "lang_of streamInfo =
     (case streamInfo of
        None \<Rightarrow> ''und''
      | Some s \<Rightarrow>
          (case language s of
             None \<Rightarrow> ''und''
           | Some l \<Rightarrow> if l = [] then ''und'' else l))"

definition video_command :: "string \<Rightarrow> string \<Rightarrow> nat \<Rightarrow> nat \<Rightarrow> bool \<Rightarrow> ffmpeg_command" where
  "video_command filePath outputPath i streamIndex isH264 =
     \<lparr>cmd_input = filePath,
      cmd_options =
        [(''-map'', ''0:'' @ string_of_nat streamIndex),
         (''-f'', ''hls''),
         (''-hls_time'', ''10''),
         (''-hls_list_size'', ''0''),
         (''-hls_segment_filename'', outputPath @ ''/video_'' @ string_of_nat i @ ''_%03d.ts''),
         (''-c:v'', if isH264 then ''copy'' else ''libx264'')],
      cmd_output = outputPath @ ''/video_'' @ string_of_nat i @ ''.m3u8''\<rparr>"

definition video_entry :: "nat \<Rightarrow> string" where
  "video_entry i =
     ''#EXT-X-STREAM-INF:BANDWIDTH=4000000,AUDIO='' @ [dq] @ ''audios'' @ [dq] @
     '',SUBTITLES='' @ [dq] @ ''subs'' @ [dq] @ [nl] @ ''video_'' @ string_of_nat i @ ''.m3u8''"

definition audio_command :: "string \<Rightarrow> string \<Rightarrow> nat \<Rightarrow> nat \<Rightarrow> bool \<Rightarrow> ffmpeg_command" where
  "audio_command filePath outputPath i streamIndex isAAC =
     \<lparr>cmd_input = filePath,
      cmd_options =
        [(''-map'', ''0:'' @ string_of_nat streamIndex),
         (''-c:a'', if isAAC then ''copy'' else ''aac''),
         (''-f'', ''hls''),
         (''-hls_time'', ''10''),
         (''-hls_list_size'', ''0''),
         (''-hls_segment_filename'', outputPath @ ''/audio_'' @ string_of_nat i @ ''_%03d.ts'')],
      cmd_output = outputPath @ ''/audio_'' @ string_of_nat i @ ''.m3u8''\<rparr>"

text \<open>The rendition line of lines 127 and 167; \<open>ty\<close>, \<open>grp\<close> and \<open>stem\<close> are
  \<^verbatim>\<open>AUDIO\<close>, \<^verbatim>\<open>audio\<close>, \<^verbatim>\<open>audio\<close> there and \<^verbatim>\<open>SUBTITLES\<close>, \<^verbatim>\<open>subs\<close>,
  \<^verbatim>\<open>sub\<close> here.\<close>

definition media_entry :: "string \<Rightarrow> string \<Rightarrow> string \<Rightarrow> string \<Rightarrow> nat \<Rightarrow> string" where
  "media_entry ty grp stem lang i =
     ''#EXT-X-MEDIA:TYPE='' @ ty @ '',GROUP-ID='' @ [dq] @ grp @ [dq] @
     '',LANGUAGE='' @ [dq] @ lang @ [dq] @ '',NAME='' @ [dq] @ lang @ [dq] @
     '',AUTOSELECT=YES,DEFAULT='' @ (if i = 0 then ''YES'' else ''NO'') @
     '',URI='' @ [dq] @ stem @ ''_'' @ string_of_nat i @ ''.m3u8'' @ [dq]"

definition audio_entry :: "string \<Rightarrow> nat \<Rightarrow> string" where
  "audio_entry lang i = media_entry ''AUDIO'' ''audio'' ''audio'' lang i"

definition subtitle_entry :: "string \<Rightarrow> nat \<Rightarrow> string" where
  "subtitle_entry lang i = media_entry ''SUBTITLES'' ''subs'' ''sub'' lang i"

definition subtitle_command :: "string \<Rightarrow> string \<Rightarrow> nat \<Rightarrow> nat \<Rightarrow> ffmpeg_command" where
  "subtitle_command filePath outputPath i streamIndex =
     \<lparr>cmd_input = filePath,
      cmd_options = [(''-map'', ''0:'' @ string_of_nat streamIndex), (''-f'', ''webvtt'')],
      cmd_output = outputPath @ ''/sub_'' @ string_of_nat i @ ''.vtt''\<rparr>"

text \<open>The template literal of lines 159-162, with the indentation of its continuation
  lines.\<close>

definition m3u8Content :: "nat \<Rightarrow> string" where
  "m3u8Content i =
     ''#EXTM3U'' @ [nl] @ ''        WEBVTT'' @ [nl] @ ''        #EXTINF:-1,'' @ [nl] @
     ''        sub_'' @ string_of_nat i @ ''.vtt''"

definition unsupported_subtitle :: "string \<Rightarrow> bool" where
  "unsupported_subtitle codec \<longleftrightarrow> codec = ''hdmv_pgs_subtitle'' \<or> codec = ''subrip''"

fun video_loop ::
  "world \<Rightarrow> string \<Rightarrow> string \<Rightarrow> nat \<Rightarrow> nat list \<Rightarrow> string list \<Rightarrow> trace \<Rightarrow>
     (error + string list) \<times> trace" where
  "video_loop w filePath outputPath i [] playlistEntries tr = (Inr playlistEntries, tr)"
| "video_loop w filePath outputPath i (streamIndex # rest) playlistEntries tr =
     (case ffprobe w filePath tr of
        (Inl err, tr1) \<Rightarrow> (Inl (ProbeError err), tr1)
      | (Inr md, tr1) \<Rightarrow>
          (case stream_at md streamIndex of
             None \<Rightarrow> (Inl TypeError, tr1)
           | Some streamInfo \<Rightarrow>
               (let isH264 = (codec_name streamInfo = ''h264'');
                    cmd = video_command filePath outputPath i streamIndex isH264
                in case ffmpeg_result w cmd of
                     Some err \<Rightarrow> (Inl (TranscodeError err), tr1 @ [Run cmd])
                   | None \<Rightarrow>
                       video_loop w filePath outputPath (Suc i) rest
                         (playlistEntries @ [video_entry i]) (tr1 @ [Run cmd]))))"

fun audio_loop ::
  "world \<Rightarrow> string \<Rightarrow> string \<Rightarrow> nat \<Rightarrow> nat list \<Rightarrow> string list \<Rightarrow> trace \<Rightarrow>
     (error + string list) \<times> trace" where
  "audio_loop w filePath outputPath i [] audioEntries tr = (Inr audioEntries, tr)"
| "audio_loop w filePath outputPath i (streamIndex # rest) audioEntries tr =
     (case isAudioStreamAAC w filePath streamIndex tr of
        (Inl e, tr1) \<Rightarrow> (Inl e, tr1)
      | (Inr isAAC, tr1) \<Rightarrow>
          (case ffprobe w filePath tr1 of
             (Inl err, tr2) \<Rightarrow> (Inl (ProbeError err), tr2)
           | (Inr md, tr2) \<Rightarrow>
               (let lang = lang_of (stream_at md streamIndex);
                    cmd = audio_command filePath outputPath i streamIndex isAAC
                in case ffmpeg_result w cmd of
                     Some err \<Rightarrow> (Inl (TranscodeError err), tr2 @ [Run cmd])
                   | None \<Rightarrow>
                       audio_loop w filePath outputPath (Suc i) rest
                         (audioEntries @ [audio_entry lang i]) (tr2 @ [Run cmd]))))"

fun subtitle_loop ::
  "world \<Rightarrow> string \<Rightarrow> string \<Rightarrow> nat \<Rightarrow> nat list \<Rightarrow> string list \<Rightarrow> trace \<Rightarrow>
     (error + string list) \<times> trace" where
  "subtitle_loop w filePath outputPath i [] subtitleEntries tr = (Inr subtitleEntries, tr)"
| "subtitle_loop w filePath outputPath i (streamIndex # rest) subtitleEntries tr =
     (case ffprobe w filePath tr of
        (Inl err, tr1) \<Rightarrow> (Inl (ProbeError err), tr1)
      | (Inr md, tr1) \<Rightarrow>
          (case stream_at md streamIndex of
             None \<Rightarrow> (Inl TypeError, tr1)
           | Some streamInfo \<Rightarrow>
               if unsupported_subtitle (codec_name streamInfo)
               then subtitle_loop w filePath outputPath (Suc i) rest subtitleEntries tr1
               else
                 (let lang = lang_of (Some streamInfo);
                      cmd = subtitle_command filePath outputPath i streamIndex
                  in case ffmpeg_result w cmd of
                       Some err \<Rightarrow> (Inl (TranscodeError err), tr1 @ [Run cmd])
                     | None \<Rightarrow>
                         subtitle_loop w filePath outputPath (Suc i) rest
                           (subtitleEntries @ [subtitle_entry lang i])
                           (tr1 @ [Run cmd,
                              WriteFile (outputPath @ ''/sub_'' @ string_of_nat i @ ''.m3u8'')
                                (m3u8Content i)]))))"

definition createHLSForStreams ::
  "world \<Rightarrow> string \<Rightarrow> string \<Rightarrow> string \<Rightarrow> streams \<Rightarrow> trace \<Rightarrow> (error + string) \<times> trace" where
  "createHLSForStreams w outputDir filePath fileName strs tr =
     (let outputPath = path_join outputDir fileName;
          tr0 = tr @ [Mkdir outputPath]
      in case video_loop w filePath outputPath 0 (video strs) [] tr0 of
           (Inl e, tr1) \<Rightarrow> (Inl e, tr1)
         | (Inr playlistEntries, tr1) \<Rightarrow>
             (case audio_loop w filePath outputPath 0 (audio strs) [] tr1 of
                (Inl e, tr2) \<Rightarrow> (Inl e, tr2)
              | (Inr audioEntries, tr2) \<Rightarrow>
                  (case subtitle_loop w filePath outputPath 0 (subtitle strs) [] tr2 of
                     (Inl e, tr3) \<Rightarrow> (Inl e, tr3)
                   | (Inr subtitleEntries, tr3) \<Rightarrow>
                       (let masterPlaylist =
                              join nl (audioEntries @ subtitleEntries @ playlistEntries)
                        in (Inr (fileName @ ''/master.m3u8''),
                            tr3 @ [WriteFile (outputPath @ ''/master.m3u8'') masterPlaylist])))))"

subsection \<open>The upload handler (lines 188-204)\<close>

text \<open>\<^verbatim>\<open>req.file\<close> as the storage leaves it: the path of the stored file and its
  name.\<close>

record upload_file =
  file_path :: string
  file_filename :: string

datatype response = Json string string | Status500 string

definition upload :: "world \<Rightarrow> string \<Rightarrow> upload_file \<Rightarrow> trace \<Rightarrow> response \<times> trace" where
  "upload w outputDir file tr =
     (let filePath = file_path file;
          fileName = path_parse_name (file_filename file)
      in case analyzeStreams w filePath tr of
           (Inl error, tr1) \<Rightarrow> (Status500 ''Error processing video.'', tr1)
         | (Inr strs, tr1) \<Rightarrow>
             (case createHLSForStreams w outputDir filePath fileName strs tr1 of
                (Inl error, tr2) \<Rightarrow> (Status500 ''Error processing video.'', tr2)
              | (Inr streamUrl, tr2) \<Rightarrow>
                  (Json ''Video processed with all streams.'' (''/streams/'' @ streamUrl), tr2)))"

subsection \<open>Notions used by the statements\<close>

text \<open>The identifiers of a sequence of submissions of one source file, given the
  value of \<^verbatim>\<open>Date.now()\<close> at each.\<close>

definition job_identifiers :: "string \<Rightarrow> nat list \<Rightarrow> string list" where
  "job_identifiers originalname nows = map (\<lambda>now. job_identifier now originalname) nows"

text \<open>A world in which every probe of the file answers the same stream list, and one in
  which no engine command fails.\<close>

definition stable :: "world \<Rightarrow> string \<Rightarrow> stream_info list \<Rightarrow> bool" where
  "stable w filePath md \<longleftrightarrow> (\<forall>n. ffprobe_result w n filePath = Inr md)"

definition engine_ok :: "world \<Rightarrow> bool" where
  "engine_ok w \<longleftrightarrow> (\<forall>c. ffmpeg_result w c = None)"

fun runs :: "trace \<Rightarrow> ffmpeg_command list" where
  "runs [] = []"
| "runs (Run c # tr) = c # runs tr"
| "runs (e # tr) = runs tr"

fun is_mkdir :: "event \<Rightarrow> bool" where
  "is_mkdir (Mkdir d) = True"
| "is_mkdir e = False"

text \<open>The trace holds no engine command that failed.\<close>

definition ok_trace :: "world \<Rightarrow> trace \<Rightarrow> bool" where
  "ok_trace w tr \<longleftrightarrow> (\<forall>c. Run c \<in> set tr \<longrightarrow> ffmpeg_result w c = None)"

text \<open>The events of one pass of each loop in a stable world, for the stream at
  container index \<open>k\<close> and type-local index \<open>i\<close>.\<close>

definition video_events :: "string \<Rightarrow> string \<Rightarrow> stream_info list \<Rightarrow> nat \<times> nat \<Rightarrow> trace" where
  "video_events filePath outputPath md ik =
     [Probe filePath,
      Run (video_command filePath outputPath (fst ik) (snd ik)
             (codec_name (md ! snd ik) = ''h264''))]"

definition audio_events :: "string \<Rightarrow> string \<Rightarrow> stream_info list \<Rightarrow> nat \<times> nat \<Rightarrow> trace" where
  "audio_events filePath outputPath md ik =
     [Probe filePath, Probe filePath,
      Run (audio_command filePath outputPath (fst ik) (snd ik)
             (codec_type (md ! snd ik) = ''audio'' \<and> codec_name (md ! snd ik) = ''aac''))]"

definition subtitle_events :: "string \<Rightarrow> string \<Rightarrow> stream_info list \<Rightarrow> nat \<times> nat \<Rightarrow> trace" where
  "subtitle_events filePath outputPath md ik =
     Probe filePath #
     (if unsupported_subtitle (codec_name (md ! snd ik)) then []
      else [Run (subtitle_command filePath outputPath (fst ik) (snd ik)),
            WriteFile (outputPath @ ''/sub_'' @ string_of_nat (fst ik) @ ''.m3u8'')
              (m3u8Content (fst ik))])"

text \<open>The master playlist as the specification describes it: the audio lines by
  type-local index, then the subtitle lines of the streams that are not skipped, by
  type-local index, then the video lines by type-local index.\<close>

definition streams_of_type :: "string \<Rightarrow> stream_info list \<Rightarrow> (nat \<times> stream_info) list" where
  "streams_of_type ty md = enumerate 0 (filter (\<lambda>s. codec_type s = ty) md)"

definition spec_audio_lines :: "stream_info list \<Rightarrow> string list" where
  "spec_audio_lines md =
     map (\<lambda>is. audio_entry (lang_of (Some (snd is))) (fst is)) (streams_of_type ''audio'' md)"

definition spec_subtitle_lines :: "stream_info list \<Rightarrow> string list" where
  "spec_subtitle_lines md =
     map (\<lambda>is. subtitle_entry (lang_of (Some (snd is))) (fst is))
       (filter (\<lambda>is. \<not> unsupported_subtitle (codec_name (snd is)))
          (streams_of_type ''subtitle'' md))"

definition spec_video_lines :: "stream_info list \<Rightarrow> string list" where
  "spec_video_lines md = map (\<lambda>is. video_entry (fst is)) (streams_of_type ''video'' md)"

definition spec_manifest_lines :: "stream_info list \<Rightarrow> string list" where
  "spec_manifest_lines md = spec_audio_lines md @ spec_subtitle_lines md @ spec_video_lines md"

text \<open>The content of the file that the trace writes last to \<open>path\<close>, if any.\<close>

fun written :: "string \<Rightarrow> trace \<Rightarrow> string option" where
  "written path [] = None"
| "written path (WriteFile p c # tr) =
     (case written path tr of Some c' \<Rightarrow> Some c' | None \<Rightarrow> if p = path then Some c else None)"
| "written path (e # tr) = written path tr"

text \<open>The whole trace of a job that completes in a stable world.\<close>

definition job_events :: "string \<Rightarrow> string \<Rightarrow> stream_info list \<Rightarrow> trace" where
  "job_events filePath outputPath md =
     [Probe filePath, Mkdir outputPath] @
     concat (map (video_events filePath outputPath md) (enumerate 0 (indices_of_type ''video'' md))) @
     concat (map (audio_events filePath outputPath md) (enumerate 0 (indices_of_type ''audio'' md))) @
     concat (map (subtitle_events filePath outputPath md)
               (enumerate 0 (indices_of_type ''subtitle'' md))) @
     [WriteFile (outputPath @ ''/master.m3u8'') (join nl (spec_manifest_lines md))]"

text \<open>The events that each loop can add to the trace, in any world.\<close>

definition video_event :: "string \<Rightarrow> string \<Rightarrow> event \<Rightarrow> bool" where
  "video_event filePath outputPath e \<longleftrightarrow>
     e = Probe filePath \<or> (\<exists>i k b. e = Run (video_command filePath outputPath i k b))"

definition audio_event :: "string \<Rightarrow> string \<Rightarrow> event \<Rightarrow> bool" where
  "audio_event filePath outputPath e \<longleftrightarrow>
     e = Probe filePath \<or> (\<exists>i k b. e = Run (audio_command filePath outputPath i k b))"

definition subtitle_event :: "string \<Rightarrow> string \<Rightarrow> event \<Rightarrow> bool" where
  "subtitle_event filePath outputPath e \<longleftrightarrow>
     e = Probe filePath \<or>
     (\<exists>i k. e = Run (subtitle_command filePath outputPath i k)) \<or>
     (\<exists>i. e = WriteFile (outputPath @ ''/sub_'' @ string_of_nat i @ ''.m3u8'') (m3u8Content i))"

definition loop_event :: "string \<Rightarrow> string \<Rightarrow> event \<Rightarrow> bool" where
  "loop_event filePath outputPath e \<longleftrightarrow>
     video_event filePath outputPath e \<or> audio_event filePath outputPath e \<or>
     subtitle_event filePath outputPath e"

text \<open>A trace that stops at an engine command that failed, every command before it
  having ended.\<close>

definition aborted :: "world \<Rightarrow> trace \<Rightarrow> bool" where
  "aborted w tr \<longleftrightarrow>
     (\<exists>pre c. tr = pre @ [Run c] \<and> ok_trace w pre \<and> ffmpeg_result w c \<noteq> None)"

text \<open>The value of an option of a command, and the commands of a trace that map the
  stream at container index \<open>k\<close>.\<close>

definition option_value :: "ffmpeg_command \<Rightarrow> string \<Rightarrow> string option" where
  "option_value c flag = map_of (cmd_options c) flag"

definition commands_for :: "nat \<Rightarrow> trace \<Rightarrow> ffmpeg_command list" where
  "commands_for k tr =
     filter (\<lambda>c. option_value c ''-map'' = Some (''0:'' @ string_of_nat k)) (runs tr)"

text \<open>A command that writes the segmented output of the stream with type-local index
  \<open>i\<close> of type \<open>ty\<close>: the names of its playlist and of its segments, the segment
  duration and the size of the segment list.\<close>

definition segmented :: "string \<Rightarrow> string \<Rightarrow> nat \<Rightarrow> ffmpeg_command \<Rightarrow> bool" where
  "segmented ty outputPath i c \<longleftrightarrow>
     cmd_output c = outputPath @ ''/'' @ ty @ ''_'' @ string_of_nat i @ ''.m3u8'' \<and>
     option_value c ''-hls_segment_filename'' =
       Some (outputPath @ ''/'' @ ty @ ''_'' @ string_of_nat i @ ''_%03d.ts'') \<and>
     option_value c ''-f'' = Some ''hls'' \<and>
     option_value c ''-hls_time'' = Some ''10'' \<and>
     option_value c ''-hls_list_size'' = Some ''0''"

definition subtitle_track :: "string \<Rightarrow> nat \<Rightarrow> ffmpeg_command \<Rightarrow> bool" where
  "subtitle_track outputPath i c \<longleftrightarrow>
     cmd_output c = outputPath @ ''/sub_'' @ string_of_nat i @ ''.vtt'' \<and>
     option_value c ''-f'' = Some ''webvtt''"

text \<open>The kinds of generation the engine is asked for.\<close>

definition video_passthrough :: "ffmpeg_command \<Rightarrow> bool" where
  "video_passthrough c \<longleftrightarrow> option_value c ''-c:v'' = Some ''copy''"

definition audio_passthrough :: "ffmpeg_command \<Rightarrow> bool" where
  "audio_passthrough c \<longleftrightarrow> option_value c ''-c:a'' = Some ''copy''"

definition audio_reencode :: "ffmpeg_command \<Rightarrow> bool" where
  "audio_reencode c \<longleftrightarrow> option_value c ''-c:a'' = Some ''aac''"

definition subtitle_transcode :: "ffmpeg_command \<Rightarrow> bool" where
  "subtitle_transcode c \<longleftrightarrow> option_value c ''-f'' = Some ''webvtt''"

text \<open>What a loop leaves behind: the events \<open>ev\<close> it added satisfy \<open>P\<close>; when it
  failed, either no command of \<open>ev\<close> failed or \<open>ev\<close> stops at the command that did; when
  it returned, no command failed and \<open>ev\<close> holds \<open>n\<close> probes.\<close>

definition loop_post :: "world \<Rightarrow> (event \<Rightarrow> bool) \<Rightarrow> nat \<Rightarrow> error + 'a \<Rightarrow> trace \<Rightarrow> bool" where
  "loop_post w P n r ev \<longleftrightarrow>
     (\<forall>e\<in>set ev. P e) \<and>
     (case r of
        Inl err \<Rightarrow> ok_trace w ev \<or> aborted w ev
      | Inr es \<Rightarrow> ok_trace w ev \<and> probe_count ev = n)"

text \<open>The stream at container index \<open>k\<close> is the \<open>i\<close>-th stream of type \<open>ty\<close>, counted
  from 0: \<open>i\<close> is its type-local index.\<close>

definition nth_of_type :: "string \<Rightarrow> stream_info list \<Rightarrow> nat \<Rightarrow> nat \<Rightarrow> bool" where
  "nth_of_type ty md i k \<longleftrightarrow> (i, k) \<in> set (enumerate 0 (indices_of_type ty md))"

text \<open>Reading a master playlist back: its lines, and the rendition lines of a type that
  carry the default flag.\<close>

fun split_lines :: "string \<Rightarrow> string list" where
  "split_lines [] = [[]]"
| "split_lines (c # cs) =
     (if c = nl then [] # split_lines cs
      else (case split_lines cs of [] \<Rightarrow> [[c]] | l # ls \<Rightarrow> (c # l) # ls))"

fun contains :: "string \<Rightarrow> string \<Rightarrow> bool" where
  "contains pat [] \<longleftrightarrow> pat = []"
| "contains pat (c # cs) \<longleftrightarrow> prefix pat (c # cs) \<or> contains pat cs"

definition default_renditions :: "string \<Rightarrow> string \<Rightarrow> string list" where
  "default_renditions ty content =
     filter (\<lambda>l. prefix (''#EXT-X-MEDIA:TYPE='' @ ty @ '','') l \<and> contains '',DEFAULT=YES,'' l)
       (split_lines content)"

text \<open>The lines of the master playlist as a reader of the file finds them, written out
  from lines 94, 127 and 167 of the source: the rendition line of an audio and of a
  subtitle stream with its language tag and type-local index, and the two lines of a
  video stream. \<open>language_tag\<close> is the tag of a stream, \<^verbatim>\<open>und\<close> when it has none;
  \<open>accepted_subtitles\<close> are the subtitle streams that are not skipped, with their
  type-local indices.\<close>

definition language_tag :: "stream_info \<Rightarrow> string" where
  "language_tag s = (case language s of None \<Rightarrow> ''und'' | Some l \<Rightarrow> if l = [] then ''und'' else l)"

definition audio_rendition_line :: "string \<Rightarrow> nat \<Rightarrow> string" where
  \<open>audio_rendition_line lang i =
     ''#EXT-X-MEDIA:TYPE=AUDIO,GROUP-ID="audio",LANGUAGE="'' @ lang @ ''",NAME="'' @ lang @
     ''",AUTOSELECT=YES,DEFAULT='' @ (if i = 0 then ''YES'' else ''NO'') @
     '',URI="audio_'' @ string_of_nat i @ ''.m3u8"''\<close>

definition subtitle_rendition_line :: "string \<Rightarrow> nat \<Rightarrow> string" where
  \<open>subtitle_rendition_line lang i =
     ''#EXT-X-MEDIA:TYPE=SUBTITLES,GROUP-ID="subs",LANGUAGE="'' @ lang @ ''",NAME="'' @ lang @
     ''",AUTOSELECT=YES,DEFAULT='' @ (if i = 0 then ''YES'' else ''NO'') @
     '',URI="sub_'' @ string_of_nat i @ ''.m3u8"''\<close>

definition variant_line :: string where
  \<open>variant_line = ''#EXT-X-STREAM-INF:BANDWIDTH=4000000,AUDIO="audios",SUBTITLES="subs"''\<close>

definition variant_uri_line :: "nat \<Rightarrow> string" where
  "variant_uri_line i = ''video_'' @ string_of_nat i @ ''.m3u8''"

definition accepted_subtitles :: "stream_info list \<Rightarrow> (nat \<times> stream_info) list" where
  "accepted_subtitles md =
     filter (\<lambda>is. codec_name (snd is) \<notin> {''hdmv_pgs_subtitle'', ''subrip''})
       (streams_of_type ''subtitle'' md)"

definition manifest_text_lines :: "stream_info list \<Rightarrow> string list" where
  "manifest_text_lines md =
     map (\<lambda>is. audio_rendition_line (language_tag (snd is)) (fst is))
       (streams_of_type ''audio'' md) @
     map (\<lambda>is. subtitle_rendition_line (language_tag (snd is)) (fst is))
       (accepted_subtitles md) @
     concat (map (\<lambda>is. [variant_line, variant_uri_line (fst is)])
       (streams_of_type ''video'' md))"

definition tag_line :: "string \<Rightarrow> bool" where
  "tag_line l \<longleftrightarrow> prefix ''#EXT'' l"

definition single_line_tags :: "stream_info list \<Rightarrow> bool" where
  "single_line_tags md \<longleftrightarrow> (\<forall>s\<in>set md. CHR 0x0A \<notin> set (language_tag s))"

subsection \<open>An example job\<close>

text \<open>A container with an H.264 video stream, an AAC and an AC-3 audio stream, a SubRip
  and an ASS subtitle stream, probed by an engine that never fails.\<close>

definition example_container :: "stream_info list" where
  "example_container =
     [\<lparr>codec_type = ''video'', codec_name = ''h264'', language = None\<rparr>,
      \<lparr>codec_type = ''audio'', codec_name = ''aac'', language = Some ''eng''\<rparr>,
      \<lparr>codec_type = ''audio'', codec_name = ''ac3'', language = None\<rparr>,
      \<lparr>codec_type = ''subtitle'', codec_name = ''subrip'', language = Some ''eng''\<rparr>,
      \<lparr>codec_type = ''subtitle'', codec_name = ''ass'', language = Some ''fre''\<rparr>]"

definition example_world :: world where
  "example_world =
     \<lparr>ffprobe_result = (\<lambda>n filePath. Inr example_container), ffmpeg_result = (\<lambda>c. None)\<rparr>"

definition example_file :: upload_file where
  "example_file =
     \<lparr>file_path = ''uploads/1700000000000-movie.mkv'',
      file_filename = ''1700000000000-movie.mkv''\<rparr>"

text \<open>The same upload with an engine that cannot read the file, and with one whose AAC
  encoder fails.\<close>

definition unreadable_world :: world where
  "unreadable_world =
     \<lparr>ffprobe_result = (\<lambda>n filePath. Inl ''Invalid data found when processing input''),
      ffmpeg_result = (\<lambda>c. None)\<rparr>"

definition failing_world :: world where
  "failing_world =
     \<lparr>ffprobe_result = (\<lambda>n filePath. Inr example_container),
      ffmpeg_result =
        (\<lambda>c. if option_value c ''-c:a'' = Some ''aac'' then Some ''ffmpeg exited with code 1''
             else None)\<rparr>"

text \<open>A container with one H.264 video stream, an AAC and an E-AC-3 audio stream and an
  ASS subtitle stream, probed by an engine that never fails.\<close>

definition roundtrip_container :: "stream_info list" where
  "roundtrip_container =
     [\<lparr>codec_type = ''video'', codec_name = ''h264'', language = Some ''und''\<rparr>,
      \<lparr>codec_type = ''audio'', codec_name = ''aac'', language = Some ''eng''\<rparr>,
      \<lparr>codec_type = ''audio'', codec_name = ''eac3'', language = Some ''ger''\<rparr>,
      \<lparr>codec_type = ''subtitle'', codec_name = ''ass'', language = Some ''eng''\<rparr>]"

definition roundtrip_world :: world where
  "roundtrip_world =
     \<lparr>ffprobe_result = (\<lambda>n filePath. Inr roundtrip_container), ffmpeg_result = (\<lambda>c. None)\<rparr>"

section \<open>Properties\<close>

subsection \<open>Decimal numbers\<close>

lemma digit_inj: "a < 10 \<Longrightarrow> b < 10 \<Longrightarrow> digit a = digit b \<Longrightarrow> a = b"
proof -
  assume a: "a < 10" and b: "b < 10" and e: "digit a = digit b"
  have d: "distinct ''0123456789''" by simp
  have la: "a < length ''0123456789''" using a by simp
  have lb: "b < length ''0123456789''" using b by simp
  from e have "''0123456789'' ! a = ''0123456789'' ! b" by (simp add: digit_def)
  with d la lb show "a = b" by (simp only: nth_eq_iff_index_eq)
qed

lemma digit_in_digits: "d < 10 \<Longrightarrow> digit d \<in> set ''0123456789''"
proof -
  assume "d < 10"
  then have "d < length ''0123456789''" by simp
  then have "''0123456789'' ! d \<in> set ''0123456789''" by (rule nth_mem)
  then show ?thesis by (simp only: digit_def)
qed

lemma string_of_nat_nonempty: "string_of_nat n \<noteq> []"
  by (subst string_of_nat.simps) simp

lemma string_of_nat_digits: "set (string_of_nat n) \<subseteq> set ''0123456789''"
proof (induction n rule: string_of_nat.induct)
  case (1 n)
  show ?case
  proof (cases "n < 10")
    case True
    then show ?thesis
      using digit_in_digits [of n] by (subst string_of_nat.simps) simp
  next
    case False
    then have "set (string_of_nat (n div 10)) \<subseteq> set ''0123456789''"
      using "1.IH" by simp
    moreover have "digit (n mod 10) \<in> set ''0123456789''"
      by (rule digit_in_digits) simp
    ultimately show ?thesis
      using False by (subst string_of_nat.simps) simp
  qed
qed

lemma string_of_nat_inj: "string_of_nat a = string_of_nat b \<Longrightarrow> a = b"
proof (induction a arbitrary: b rule: string_of_nat.induct)
  case (1 a)
  show ?case
  proof (cases "a < 10")
    case True
    then have sa: "string_of_nat a = [digit a]"
      by (subst string_of_nat.simps) simp
    show ?thesis
    proof (cases "b < 10")
      case b: True
      then have "string_of_nat b = [digit b]"
        by (subst string_of_nat.simps) simp
      with sa "1.prems" have "digit a = digit b" by simp
      with True b show ?thesis by (rule digit_inj)
    next
      case b: False
      then have "string_of_nat b = string_of_nat (b div 10) @ [digit (b mod 10)]"
        by (subst string_of_nat.simps) simp
      with sa "1.prems" have "string_of_nat (b div 10) = []" by simp
      then show ?thesis by (simp add: string_of_nat_nonempty)
    qed
  next
    case False
    then have sa: "string_of_nat a = string_of_nat (a div 10) @ [digit (a mod 10)]"
      by (subst string_of_nat.simps) simp
    show ?thesis
    proof (cases "b < 10")
      case b: True
      then have "string_of_nat b = [digit b]"
        by (subst string_of_nat.simps) simp
      with sa "1.prems" have "string_of_nat (a div 10) = []" by simp
      then show ?thesis by (simp add: string_of_nat_nonempty)
    next
      case b: False
      then have "string_of_nat b = string_of_nat (b div 10) @ [digit (b mod 10)]"
        by (subst string_of_nat.simps) simp
      with sa "1.prems" have e: "string_of_nat (a div 10) = string_of_nat (b div 10)"
        and d: "digit (a mod 10) = digit (b mod 10)" by simp_all
      from e have "a div 10 = b div 10" using "1.IH" False by simp
      moreover have "a mod 10 = b mod 10"
        by (rule digit_inj [OF _ _ d]) simp_all
      ultimately show ?thesis by (metis div_mult_mod_eq)
    qed
  qed
qed

lemma string_of_nat_small [simp]:
  "string_of_nat 0 = ''0''" "string_of_nat (Suc 0) = ''1''" "string_of_nat 2 = ''2''"
  by (simp_all add: string_of_nat.simps digit_def)

subsection \<open>Jobs in a stable world\<close>

lemma ffprobe_stable:
  "stable w filePath md \<Longrightarrow> ffprobe w filePath tr = (Inr md, tr @ [Probe filePath])"
  by (simp add: ffprobe_def stable_def)

lemma video_loop_stable:
  assumes "stable w filePath md"
  shows "\<forall>k\<in>set idxs. k < length md \<Longrightarrow>
     video_loop w filePath outputPath i idxs es tr = (Inr es', tr') \<Longrightarrow>
     es' = es @ map (\<lambda>ik. video_entry (fst ik)) (enumerate i idxs) \<and>
     tr' = tr @ concat (map (video_events filePath outputPath md) (enumerate i idxs))"
proof (induction idxs arbitrary: i es tr)
  case Nil
  then show ?case by simp
next
  case (Cons k rest)
  from Cons.prems(1) have k: "k < length md" and rest: "\<forall>k\<in>set rest. k < length md"
    by simp_all
  let ?cmd = "video_command filePath outputPath i k (codec_name (md ! k) = ''h264'')"
  from Cons.prems(2) k have ok: "ffmpeg_result w ?cmd = None"
    by (auto simp: ffprobe_stable [OF assms] stream_at_def Let_def split: option.splits)
  with Cons.prems(2) k have
    "video_loop w filePath outputPath (Suc i) rest (es @ [video_entry i])
       (tr @ [Probe filePath] @ [Run ?cmd]) = (Inr es', tr')"
    by (simp add: ffprobe_stable [OF assms] stream_at_def Let_def)
  from Cons.IH [OF rest this] show ?case
    by (simp add: video_events_def)
qed

lemma audio_loop_stable:
  assumes "stable w filePath md"
  shows "\<forall>k\<in>set idxs. k < length md \<Longrightarrow>
     audio_loop w filePath outputPath i idxs es tr = (Inr es', tr') \<Longrightarrow>
     es' = es @ map (\<lambda>ik. audio_entry (lang_of (Some (md ! snd ik))) (fst ik)) (enumerate i idxs) \<and>
     tr' = tr @ concat (map (audio_events filePath outputPath md) (enumerate i idxs))"
proof (induction idxs arbitrary: i es tr)
  case Nil
  then show ?case by simp
next
  case (Cons k rest)
  from Cons.prems(1) have k: "k < length md" and rest: "\<forall>k\<in>set rest. k < length md"
    by simp_all
  let ?aac = "codec_type (md ! k) = ''audio'' \<and> codec_name (md ! k) = ''aac''"
  let ?cmd = "audio_command filePath outputPath i k ?aac"
  have aac: "isAudioStreamAAC w filePath k tr = (Inr ?aac, tr @ [Probe filePath])" for tr
    using k by (simp add: isAudioStreamAAC_def ffprobe_stable [OF assms] stream_at_def)
  from Cons.prems(2) k have ok: "ffmpeg_result w ?cmd = None"
    by (auto simp: aac ffprobe_stable [OF assms] stream_at_def Let_def split: option.splits)
  with Cons.prems(2) k have
    "audio_loop w filePath outputPath (Suc i) rest
       (es @ [audio_entry (lang_of (Some (md ! k))) i])
       (tr @ [Probe filePath] @ [Probe filePath] @ [Run ?cmd]) = (Inr es', tr')"
    by (simp add: aac ffprobe_stable [OF assms] stream_at_def Let_def)
  from Cons.IH [OF rest this] show ?case
    by (simp add: audio_events_def)
qed

lemma subtitle_loop_stable:
  assumes "stable w filePath md"
  shows "\<forall>k\<in>set idxs. k < length md \<Longrightarrow>
     subtitle_loop w filePath outputPath i idxs es tr = (Inr es', tr') \<Longrightarrow>
     es' = es @ map (\<lambda>ik. subtitle_entry (lang_of (Some (md ! snd ik))) (fst ik))
                  (filter (\<lambda>ik. \<not> unsupported_subtitle (codec_name (md ! snd ik)))
                     (enumerate i idxs)) \<and>
     tr' = tr @ concat (map (subtitle_events filePath outputPath md) (enumerate i idxs))"
proof (induction idxs arbitrary: i es tr)
  case Nil
  then show ?case by simp
next
  case (Cons k rest)
  from Cons.prems(1) have k: "k < length md" and rest: "\<forall>k\<in>set rest. k < length md"
    by simp_all
  show ?case
  proof (cases "unsupported_subtitle (codec_name (md ! k))")
    case True
    with Cons.prems(2) k have
      "subtitle_loop w filePath outputPath (Suc i) rest es (tr @ [Probe filePath]) = (Inr es', tr')"
      by (simp add: ffprobe_stable [OF assms] stream_at_def)
    from Cons.IH [OF rest this] True show ?thesis
      by (simp add: subtitle_events_def)
  next
    case False
    let ?cmd = "subtitle_command filePath outputPath i k"
    from Cons.prems(2) k False have ok: "ffmpeg_result w ?cmd = None"
      by (auto simp: ffprobe_stable [OF assms] stream_at_def Let_def split: option.splits)
    with Cons.prems(2) k False have
      "subtitle_loop w filePath outputPath (Suc i) rest
         (es @ [subtitle_entry (lang_of (Some (md ! k))) i])
         (tr @ [Probe filePath] @
            [Run ?cmd, WriteFile (outputPath @ ''/sub_'' @ string_of_nat i @ ''.m3u8'')
               (m3u8Content i)]) = (Inr es', tr')"
      by (simp add: ffprobe_stable [OF assms] stream_at_def Let_def)
    from Cons.IH [OF rest this] False show ?thesis
      by (simp add: subtitle_events_def)
  qed
qed

lemma indices_of_typeD:
  "k \<in> set (indices_of_type ty md) \<Longrightarrow> k < length md \<and> codec_type (md ! k) = ty"
  by (simp add: indices_of_type_def)

lemma map_nth_indices_of_type:
  "map ((!) md) (indices_of_type ty md) = filter (\<lambda>s. codec_type s = ty) md"
proof -
  have "map ((!) md) (filter ((\<lambda>s. codec_type s = ty) \<circ> (!) md) [0..<length md]) =
        filter (\<lambda>s. codec_type s = ty) (map ((!) md) [0..<length md])"
    by (simp only: filter_map)
  then show ?thesis
    by (simp add: indices_of_type_def comp_def map_nth)
qed

lemma enumerate_map:
  "enumerate n (map f xs) = map (\<lambda>p. (fst p, f (snd p))) (enumerate n xs)"
  by (induction xs arbitrary: n) simp_all

lemma enumerate_indices_of_type:
  "map (\<lambda>p. (fst p, md ! snd p)) (enumerate 0 (indices_of_type ty md)) = streams_of_type ty md"
  by (simp add: streams_of_type_def map_nth_indices_of_type [symmetric] enumerate_map)

lemma audio_lines_indices:
  "map (\<lambda>ik. audio_entry (lang_of (Some (md ! snd ik))) (fst ik))
     (enumerate 0 (indices_of_type ''audio'' md)) = spec_audio_lines md"
  by (simp add: spec_audio_lines_def enumerate_indices_of_type [symmetric] comp_def)

lemma video_lines_indices:
  "map (\<lambda>ik. video_entry (fst ik)) (enumerate 0 (indices_of_type ''video'' md)) =
     spec_video_lines md"
  by (simp add: spec_video_lines_def enumerate_indices_of_type [symmetric] comp_def)

lemma subtitle_lines_indices:
  "map (\<lambda>ik. subtitle_entry (lang_of (Some (md ! snd ik))) (fst ik))
     (filter (\<lambda>ik. \<not> unsupported_subtitle (codec_name (md ! snd ik)))
        (enumerate 0 (indices_of_type ''subtitle'' md))) = spec_subtitle_lines md"
  by (simp add: spec_subtitle_lines_def enumerate_indices_of_type [symmetric] comp_def
      filter_map)

lemma createHLS_stable:
  assumes st: "stable w filePath md"
    and run: "createHLSForStreams w outputDir filePath fileName (classify md) tr = (Inr url, tr')"
  shows "url = fileName @ ''/master.m3u8'' \<and>
         tr' = tr @ tl (job_events filePath (path_join outputDir fileName) md)"
proof -
  let ?op = "path_join outputDir fileName"
  have bound: "\<forall>k\<in>set (indices_of_type ty md). k < length md" for ty
    by (simp add: indices_of_typeD)
  from run obtain ves tr1 where
    v: "video_loop w filePath ?op 0 (indices_of_type ''video'' md) [] (tr @ [Mkdir ?op]) =
          (Inr ves, tr1)"
    by (auto simp: createHLSForStreams_def classify_def Let_def split: prod.splits sum.splits)
  from run v obtain aes tr2 where
    a: "audio_loop w filePath ?op 0 (indices_of_type ''audio'' md) [] tr1 = (Inr aes, tr2)"
    by (auto simp: createHLSForStreams_def classify_def Let_def split: prod.splits sum.splits)
  from run v a obtain ses tr3 where
    s: "subtitle_loop w filePath ?op 0 (indices_of_type ''subtitle'' md) [] tr2 = (Inr ses, tr3)"
    by (auto simp: createHLSForStreams_def classify_def Let_def split: prod.splits sum.splits)
  from run v a s have res: "url = fileName @ ''/master.m3u8''"
    "tr' = tr3 @ [WriteFile (?op @ ''/master.m3u8'') (join nl (aes @ ses @ ves))]"
    by (simp_all add: createHLSForStreams_def classify_def Let_def)
  note V = video_loop_stable [OF st bound v]
  note A = audio_loop_stable [OF st bound a]
  note S = subtitle_loop_stable [OF st bound s]
  have lines: "aes @ ses @ ves = spec_manifest_lines md"
    using V A S
    by (simp add: spec_manifest_lines_def audio_lines_indices video_lines_indices
        subtitle_lines_indices)
  have tr3: "tr3 = tr @ [Mkdir ?op] @
      concat (map (video_events filePath ?op md) (enumerate 0 (indices_of_type ''video'' md))) @
      concat (map (audio_events filePath ?op md) (enumerate 0 (indices_of_type ''audio'' md))) @
      concat (map (subtitle_events filePath ?op md)
                (enumerate 0 (indices_of_type ''subtitle'' md)))"
    using V A S by simp
  show ?thesis
    unfolding res lines tr3 by (simp add: job_events_def)
qed

lemma upload_completed:
  assumes st: "stable w (file_path file) md"
    and run: "upload w outputDir file [] = (Json msg url, tr)"
  shows "msg = ''Video processed with all streams.'' \<and>
         url = ''/streams/'' @ path_parse_name (file_filename file) @ ''/master.m3u8'' \<and>
         tr = job_events (file_path file)
                (path_join outputDir (path_parse_name (file_filename file))) md"
proof -
  have an: "analyzeStreams w (file_path file) [] = (Inr (classify md), [Probe (file_path file)])"
    by (simp add: analyzeStreams_def ffprobe_stable [OF st])
  from run an obtain u where
    c: "createHLSForStreams w outputDir (file_path file) (path_parse_name (file_filename file))
          (classify md) [Probe (file_path file)] = (Inr u, tr)"
    and r: "msg = ''Video processed with all streams.''" "url = ''/streams/'' @ u"
    by (auto simp: upload_def Let_def split: prod.splits sum.splits)
  from createHLS_stable [OF st c] r show ?thesis
    by (simp add: job_events_def)
qed

lemma video_loop_succeeds:
  assumes "stable w filePath md" and "engine_ok w"
  shows "\<forall>k\<in>set idxs. k < length md \<Longrightarrow>
     \<exists>es' tr'. video_loop w filePath outputPath i idxs es tr = (Inr es', tr')"
proof (induction idxs arbitrary: i es tr)
  case Nil
  show ?case by simp
next
  case (Cons k rest)
  then show ?case
    using assms(2)
    by (simp add: ffprobe_stable [OF assms(1)] stream_at_def Let_def engine_ok_def)
qed

lemma audio_loop_succeeds:
  assumes "stable w filePath md" and "engine_ok w"
  shows "\<exists>es' tr'. audio_loop w filePath outputPath i idxs es tr = (Inr es', tr')"
proof (induction idxs arbitrary: i es tr)
  case Nil
  show ?case by simp
next
  case (Cons k rest)
  have "\<exists>b. isAudioStreamAAC w filePath k tr = (Inr b, tr @ [Probe filePath])"
    by (auto simp: isAudioStreamAAC_def ffprobe_stable [OF assms(1)] split: option.splits)
  then obtain b where "isAudioStreamAAC w filePath k tr = (Inr b, tr @ [Probe filePath])" ..
  then show ?case
    using assms(2) Cons.IH
    by (simp add: ffprobe_stable [OF assms(1)] Let_def engine_ok_def)
qed

lemma subtitle_loop_succeeds:
  assumes "stable w filePath md" and "engine_ok w"
  shows "\<forall>k\<in>set idxs. k < length md \<Longrightarrow>
     \<exists>es' tr'. subtitle_loop w filePath outputPath i idxs es tr = (Inr es', tr')"
proof (induction idxs arbitrary: i es tr)
  case Nil
  show ?case by simp
next
  case (Cons k rest)
  then show ?case
    using assms(2)
    by (simp add: ffprobe_stable [OF assms(1)] stream_at_def Let_def engine_ok_def)
qed

lemma upload_succeeds:
  assumes st: "stable w (file_path file) md" and ok: "engine_ok w"
  shows "upload w outputDir file [] =
     (Json ''Video processed with all streams.''
        (''/streams/'' @ path_parse_name (file_filename file) @ ''/master.m3u8''),
      job_events (file_path file) (path_join outputDir (path_parse_name (file_filename file))) md)"
proof -
  let ?fp = "file_path file"
  let ?name = "path_parse_name (file_filename file)"
  let ?op = "path_join outputDir ?name"
  have bound: "\<forall>k\<in>set (indices_of_type ty md). k < length md" for ty
    by (simp add: indices_of_typeD)
  obtain ves tr1 where
    v: "video_loop w ?fp ?op 0 (indices_of_type ''video'' md) [] ([Probe ?fp] @ [Mkdir ?op]) =
          (Inr ves, tr1)"
    using video_loop_succeeds [OF st ok bound] by blast
  obtain aes tr2 where
    a: "audio_loop w ?fp ?op 0 (indices_of_type ''audio'' md) [] tr1 = (Inr aes, tr2)"
    using audio_loop_succeeds [OF st ok] by blast
  obtain ses tr3 where
    s: "subtitle_loop w ?fp ?op 0 (indices_of_type ''subtitle'' md) [] tr2 = (Inr ses, tr3)"
    using subtitle_loop_succeeds [OF st ok bound] by blast
  have "\<exists>msg url tr. upload w outputDir file [] = (Json msg url, tr)"
    using v a s
    by (simp add: upload_def analyzeStreams_def ffprobe_stable [OF st] createHLSForStreams_def
        classify_def Let_def)
  then obtain msg url tr where run: "upload w outputDir file [] = (Json msg url, tr)"
    by blast
  from upload_completed [OF st run] run show ?thesis
    by simp
qed

lemma written_append_write: "written path (tr @ [WriteFile path c]) = Some c"
proof (induction tr)
  case Nil
  show ?case by simp
next
  case (Cons e tr)
  then show ?case by (cases e) simp_all
qed

lemma written_job_events:
  "written (outputPath @ ''/master.m3u8'') (job_events filePath outputPath md) =
     Some (join nl (spec_manifest_lines md))"
proof -
  have "\<exists>pre. job_events filePath outputPath md =
          pre @ [WriteFile (outputPath @ ''/master.m3u8'') (join nl (spec_manifest_lines md))]"
    unfolding job_events_def by (metis append.assoc)
  then show ?thesis
    by (auto simp: written_append_write)
qed

lemma length_indices_of_type:
  "length (indices_of_type ty md) = length (streams_of_type ty md)"
proof -
  have "length (map ((!) md) (indices_of_type ty md)) = length (streams_of_type ty md)"
    by (simp only: map_nth_indices_of_type streams_of_type_def length_enumerate)
  then show ?thesis by simp
qed

subsection \<open>Job identifiers\<close>

lemma path_base_no_slash: "CHR ''/'' \<notin> set p \<Longrightarrow> path_base p = p"
proof -
  assume ns: "CHR ''/'' \<notin> set p"
  then have all: "\<forall>c\<in>set (rev p). c \<noteq> CHR ''/''" by auto
  have d: "dropWhile (\<lambda>c. c = CHR ''/'') (rev p) = rev p"
    using all by (cases "rev p") auto
  have t: "takeWhile (\<lambda>c. c \<noteq> CHR ''/'') (rev p) = rev p"
    using all by (simp add: takeWhile_eq_all_conv)
  show ?thesis
    unfolding path_base_def d t by simp
qed

lemma before_last_dot_append:
  assumes "CHR ''.'' \<in> set name"
  shows "before_last_dot (pre @ name) = pre @ before_last_dot name"
proof -
  from assms have ex: "\<exists>c\<in>set (rev name). \<not> c \<noteq> CHR ''.''" by simp
  then have ne: "dropWhile (\<lambda>c. c \<noteq> CHR ''.'') (rev name) \<noteq> []"
    by (simp add: dropWhile_eq_Nil_conv)
  have "dropWhile (\<lambda>c. c \<noteq> CHR ''.'') (rev name @ rev pre) =
        dropWhile (\<lambda>c. c \<noteq> CHR ''.'') (rev name) @ rev pre"
    using ex by (auto simp: dropWhile_append1)
  with ne show ?thesis
    by (simp add: before_last_dot_def)
qed

lemma job_identifier_eq:
  assumes "CHR ''/'' \<notin> set originalname"
  shows "job_identifier now originalname =
     string_of_nat now @ ''-'' @
       (if CHR ''.'' \<in> set originalname then before_last_dot originalname else originalname)"
proof -
  let ?d = "string_of_nat now"
  have dig: "CHR ''/'' \<notin> set ?d" "CHR ''.'' \<notin> set ?d"
    using string_of_nat_digits [of now] by auto
  have base: "path_base (storage_filename now originalname) = ?d @ ''-'' @ originalname"
    using assms dig by (simp add: storage_filename_def path_base_no_slash)
  show ?thesis
  proof (cases "CHR ''.'' \<in> set originalname")
    case True
    have "before_last_dot ((?d @ ''-'') @ originalname) = (?d @ ''-'') @ before_last_dot originalname"
      using True by (rule before_last_dot_append)
    then have b: "before_last_dot (?d @ ''-'' @ originalname) = ?d @ ''-'' @ before_last_dot originalname"
      by simp
    have "?d @ ''-'' @ originalname \<noteq> ''..''"
    proof
      assume "?d @ ''-'' @ originalname = ''..''"
      then have "set (?d @ ''-'' @ originalname) = set ''..''" by simp
      then show False by auto
    qed
    with True b show ?thesis
      by (simp add: job_identifier_def path_parse_name_def base string_of_nat_nonempty)
  next
    case False
    with dig show ?thesis
      by (simp add: job_identifier_def path_parse_name_def base)
  qed
qed

lemma job_identifier_inj:
  assumes "CHR ''/'' \<notin> set originalname"
    and "job_identifier t1 originalname = job_identifier t2 originalname"
  shows "t1 = t2"
proof -
  from assms have "string_of_nat t1 = string_of_nat t2"
    by (simp add: job_identifier_eq)
  then show ?thesis by (rule string_of_nat_inj)
qed

subsection \<open>Jobs in any world\<close>

lemma ok_trace_append: "ok_trace w (a @ b) \<longleftrightarrow> ok_trace w a \<and> ok_trace w b"
  by (auto simp: ok_trace_def)

lemma ok_trace_simps [simp]:
  "ok_trace w []"
  "ok_trace w (Probe p # tr) = ok_trace w tr"
  "ok_trace w (Mkdir d # tr) = ok_trace w tr"
  "ok_trace w (WriteFile f c # tr) = ok_trace w tr"
  "ok_trace w (Run cmd # tr) = (ffmpeg_result w cmd = None \<and> ok_trace w tr)"
  by (auto simp: ok_trace_def)

lemma probe_count_append: "probe_count (a @ b) = probe_count a + probe_count b"
  by (simp add: probe_count_def)

lemma probe_count_simps [simp]:
  "probe_count [] = 0"
  "probe_count (Probe p # tr) = Suc (probe_count tr)"
  "probe_count (Mkdir d # tr) = probe_count tr"
  "probe_count (WriteFile f c # tr) = probe_count tr"
  "probe_count (Run cmd # tr) = probe_count tr"
  by (simp_all add: probe_count_def)

lemma aborted_append: "ok_trace w a \<Longrightarrow> aborted w b \<Longrightarrow> aborted w (a @ b)"
proof -
  assume a: "ok_trace w a" and "aborted w b"
  then obtain pre c where b: "b = pre @ [Run c]" "ok_trace w pre" "ffmpeg_result w c \<noteq> None"
    by (auto simp: aborted_def)
  then have "a @ b = (a @ pre) @ [Run c] \<and> ok_trace w (a @ pre) \<and> ffmpeg_result w c \<noteq> None"
    using a by (simp add: ok_trace_append)
  then show ?thesis unfolding aborted_def by blast
qed

lemma loop_post_done: "loop_post w P 0 (Inr es) []"
  by (simp add: loop_post_def)

lemma loop_post_stop:
  "\<forall>e\<in>set ev. P e \<Longrightarrow> ok_trace w ev \<Longrightarrow> loop_post w P n (Inl err) ev"
  by (simp add: loop_post_def)

lemma loop_post_abort:
  assumes "\<forall>e\<in>set pre. P e" and "ok_trace w pre" and "P (Run c)"
    and "ffmpeg_result w c = Some msg"
  shows "loop_post w P n (Inl err) (pre @ [Run c])"
proof -
  have "aborted w (pre @ [Run c])"
    unfolding aborted_def using assms(2,4) by auto
  with assms(1,3) show ?thesis by (simp add: loop_post_def)
qed

lemma loop_post_step:
  assumes "\<forall>e\<in>set step. P e" and "ok_trace w step" and "loop_post w P n r ev"
  shows "loop_post w P (probe_count step + n) r (step @ ev)"
proof (cases r)
  case (Inl err)
  with assms show ?thesis
    by (auto simp: loop_post_def ok_trace_append aborted_append)
next
  case (Inr es)
  with assms show ?thesis
    by (auto simp: loop_post_def ok_trace_append probe_count_append)
qed

lemma video_loop_post:
  "video_loop w filePath outputPath i idxs es tr = (r, tr') \<Longrightarrow>
     \<exists>ev. tr' = tr @ ev \<and> loop_post w (video_event filePath outputPath) (length idxs) r ev"
proof (induction idxs arbitrary: i es tr)
  case Nil
  then show ?case by (auto simp: loop_post_done)
next
  case (Cons k rest)
  let ?P = "video_event filePath outputPath"
  have p: "?P (Probe filePath)"
    by (simp add: video_event_def)
  have c: "?P (Run (video_command filePath outputPath i k b))" for b
    by (auto simp: video_event_def)
  show ?case
  proof (cases "ffprobe_result w (probe_count tr) filePath")
    case (Inl err)
    with Cons.prems have "tr' = tr @ [Probe filePath]" "r = Inl (ProbeError err)"
      by (auto simp: ffprobe_def)
    moreover have "loop_post w ?P (length (k # rest)) (Inl (ProbeError err)) [Probe filePath]"
      using p by (intro loop_post_stop) simp_all
    ultimately show ?thesis by blast
  next
    case (Inr md)
    show ?thesis
    proof (cases "stream_at md k")
      case None
      with Cons.prems Inr have "tr' = tr @ [Probe filePath]" "r = Inl TypeError"
        by (auto simp: ffprobe_def)
      moreover have "loop_post w ?P (length (k # rest)) (Inl TypeError) [Probe filePath]"
        using p by (intro loop_post_stop) simp_all
      ultimately show ?thesis by blast
    next
      case (Some s)
      let ?cmd = "video_command filePath outputPath i k (codec_name s = ''h264'')"
      show ?thesis
      proof (cases "ffmpeg_result w ?cmd")
        case (Some msg)
        with Cons.prems Inr \<open>stream_at md k = Some s\<close> have
          "tr' = tr @ ([Probe filePath] @ [Run ?cmd])" "r = Inl (TranscodeError msg)"
          by (auto simp: ffprobe_def Let_def)
        moreover have "loop_post w ?P (length (k # rest)) (Inl (TranscodeError msg))
            ([Probe filePath] @ [Run ?cmd])"
          using p c Some by (intro loop_post_abort) simp_all
        ultimately show ?thesis by blast
      next
        case None
        with Cons.prems Inr \<open>stream_at md k = Some s\<close> have
          "video_loop w filePath outputPath (Suc i) rest (es @ [video_entry i])
             (tr @ [Probe filePath, Run ?cmd]) = (r, tr')"
          by (simp add: ffprobe_def Let_def)
        from Cons.IH [OF this] obtain ev where ev:
          "tr' = (tr @ [Probe filePath, Run ?cmd]) @ ev"
          "loop_post w ?P (length rest) r ev" by blast
        have "loop_post w ?P (probe_count [Probe filePath, Run ?cmd] + length rest) r
            ([Probe filePath, Run ?cmd] @ ev)"
          using p c None ev(2) by (intro loop_post_step) simp_all
        with ev(1) have "tr' = tr @ ([Probe filePath, Run ?cmd] @ ev) \<and>
            loop_post w ?P (length (k # rest)) r ([Probe filePath, Run ?cmd] @ ev)"
          by simp
        then show ?thesis by blast
      qed
    qed
  qed
qed

lemma isAudioStreamAAC_trace: "snd (isAudioStreamAAC w filePath k tr) = tr @ [Probe filePath]"
  by (simp add: isAudioStreamAAC_def ffprobe_def split: sum.splits option.splits)

lemma audio_loop_post:
  "audio_loop w filePath outputPath i idxs es tr = (r, tr') \<Longrightarrow>
     \<exists>ev. tr' = tr @ ev \<and> loop_post w (audio_event filePath outputPath) (2 * length idxs) r ev"
proof (induction idxs arbitrary: i es tr)
  case Nil
  then show ?case by (auto simp: loop_post_done)
next
  case (Cons k rest)
  let ?P = "audio_event filePath outputPath"
  let ?tr1 = "tr @ [Probe filePath]"
  have p: "?P (Probe filePath)"
    by (simp add: audio_event_def)
  have c: "?P (Run (audio_command filePath outputPath i k b))" for b
    by (auto simp: audio_event_def)
  obtain x where aac: "isAudioStreamAAC w filePath k tr = (x, ?tr1)"
    using isAudioStreamAAC_trace [of w filePath k tr]
    by (cases "isAudioStreamAAC w filePath k tr") simp
  show ?case
  proof (cases x)
    case (Inl e)
    with Cons.prems aac have "tr' = tr @ [Probe filePath]" "r = Inl e"
      by auto
    moreover have "loop_post w ?P (2 * length (k # rest)) (Inl e) [Probe filePath]"
      using p by (intro loop_post_stop) simp_all
    ultimately show ?thesis by blast
  next
    case (Inr isAAC)
    let ?cmd = "audio_command filePath outputPath i k isAAC"
    show ?thesis
    proof (cases "ffprobe_result w (probe_count ?tr1) filePath")
      case (Inl err)
      with Cons.prems aac Inr have
        "tr' = tr @ [Probe filePath, Probe filePath]" "r = Inl (ProbeError err)"
        by (auto simp: ffprobe_def)
      moreover have "loop_post w ?P (2 * length (k # rest)) (Inl (ProbeError err))
          [Probe filePath, Probe filePath]"
        using p by (intro loop_post_stop) simp_all
      ultimately show ?thesis by blast
    next
      case md: (Inr md)
      show ?thesis
      proof (cases "ffmpeg_result w ?cmd")
        case (Some msg)
        with Cons.prems aac Inr md have
          "tr' = tr @ ([Probe filePath, Probe filePath] @ [Run ?cmd])"
          "r = Inl (TranscodeError msg)"
          by (auto simp: ffprobe_def Let_def)
        moreover have "loop_post w ?P (2 * length (k # rest)) (Inl (TranscodeError msg))
            ([Probe filePath, Probe filePath] @ [Run ?cmd])"
          using p c Some by (intro loop_post_abort) simp_all
        ultimately show ?thesis by blast
      next
        case None
        with Cons.prems aac Inr md have
          "audio_loop w filePath outputPath (Suc i) rest
             (es @ [audio_entry (lang_of (stream_at md k)) i])
             (tr @ [Probe filePath, Probe filePath, Run ?cmd]) = (r, tr')"
          by (simp add: ffprobe_def Let_def)
        from Cons.IH [OF this] obtain ev where ev:
          "tr' = (tr @ [Probe filePath, Probe filePath, Run ?cmd]) @ ev"
          "loop_post w ?P (2 * length rest) r ev" by blast
        have "loop_post w ?P
            (probe_count [Probe filePath, Probe filePath, Run ?cmd] + 2 * length rest) r
            ([Probe filePath, Probe filePath, Run ?cmd] @ ev)"
          using p c None ev(2) by (intro loop_post_step) simp_all
        with ev(1) have "tr' = tr @ ([Probe filePath, Probe filePath, Run ?cmd] @ ev) \<and>
            loop_post w ?P (2 * length (k # rest)) r
              ([Probe filePath, Probe filePath, Run ?cmd] @ ev)"
          by simp
        then show ?thesis by blast
      qed
    qed
  qed
qed

lemma subtitle_loop_post:
  "subtitle_loop w filePath outputPath i idxs es tr = (r, tr') \<Longrightarrow>
     \<exists>ev. tr' = tr @ ev \<and> loop_post w (subtitle_event filePath outputPath) (length idxs) r ev"
proof (induction idxs arbitrary: i es tr)
  case Nil
  then show ?case by (auto simp: loop_post_done)
next
  case (Cons k rest)
  let ?P = "subtitle_event filePath outputPath"
  let ?cmd = "subtitle_command filePath outputPath i k"
  let ?wr = "WriteFile (outputPath @ ''/sub_'' @ string_of_nat i @ ''.m3u8'') (m3u8Content i)"
  have p: "?P (Probe filePath)"
    by (simp add: subtitle_event_def)
  have c: "?P (Run ?cmd)"
    by (auto simp: subtitle_event_def)
  have f: "?P ?wr"
    by (auto simp: subtitle_event_def)
  show ?case
  proof (cases "ffprobe_result w (probe_count tr) filePath")
    case (Inl err)
    with Cons.prems have "tr' = tr @ [Probe filePath]" "r = Inl (ProbeError err)"
      by (auto simp: ffprobe_def)
    moreover have "loop_post w ?P (length (k # rest)) (Inl (ProbeError err)) [Probe filePath]"
      using p by (intro loop_post_stop) simp_all
    ultimately show ?thesis by blast
  next
    case (Inr md)
    show ?thesis
    proof (cases "stream_at md k")
      case None
      with Cons.prems Inr have "tr' = tr @ [Probe filePath]" "r = Inl TypeError"
        by (auto simp: ffprobe_def)
      moreover have "loop_post w ?P (length (k # rest)) (Inl TypeError) [Probe filePath]"
        using p by (intro loop_post_stop) simp_all
      ultimately show ?thesis by blast
    next
      case (Some s)
      show ?thesis
      proof (cases "unsupported_subtitle (codec_name s)")
        case True
        with Cons.prems Inr Some have
          "subtitle_loop w filePath outputPath (Suc i) rest es (tr @ [Probe filePath]) = (r, tr')"
          by (simp add: ffprobe_def)
        from Cons.IH [OF this] obtain ev where ev:
          "tr' = (tr @ [Probe filePath]) @ ev" "loop_post w ?P (length rest) r ev" by blast
        have "loop_post w ?P (probe_count [Probe filePath] + length rest) r ([Probe filePath] @ ev)"
          using p ev(2) by (intro loop_post_step) simp_all
        with ev(1) have "tr' = tr @ ([Probe filePath] @ ev) \<and>
            loop_post w ?P (length (k # rest)) r ([Probe filePath] @ ev)"
          by simp
        then show ?thesis by blast
      next
        case False
        show ?thesis
        proof (cases "ffmpeg_result w ?cmd")
          case msg: (Some msg)
          with Cons.prems Inr Some False have
            "tr' = tr @ ([Probe filePath] @ [Run ?cmd])" "r = Inl (TranscodeError msg)"
            by (auto simp: ffprobe_def Let_def)
          moreover have "loop_post w ?P (length (k # rest)) (Inl (TranscodeError msg))
              ([Probe filePath] @ [Run ?cmd])"
            using p c msg by (intro loop_post_abort) simp_all
          ultimately show ?thesis by blast
        next
          case None
          with Cons.prems Inr Some False have
            "subtitle_loop w filePath outputPath (Suc i) rest
               (es @ [subtitle_entry (lang_of (Some s)) i])
               (tr @ [Probe filePath, Run ?cmd, ?wr]) = (r, tr')"
            by (simp add: ffprobe_def Let_def)
          from Cons.IH [OF this] obtain ev where ev:
            "tr' = (tr @ [Probe filePath, Run ?cmd, ?wr]) @ ev"
            "loop_post w ?P (length rest) r ev" by blast
          have "loop_post w ?P (probe_count [Probe filePath, Run ?cmd, ?wr] + length rest) r
              ([Probe filePath, Run ?cmd, ?wr] @ ev)"
            using p c f None ev(2) by (intro loop_post_step) simp_all
          with ev(1) have "tr' = tr @ ([Probe filePath, Run ?cmd, ?wr] @ ev) \<and>
              loop_post w ?P (length (k # rest)) r ([Probe filePath, Run ?cmd, ?wr] @ ev)"
            by simp
          then show ?thesis by blast
        qed
      qed
    qed
  qed
qed

lemma loop_post_events:
  "loop_post w P n r ev \<Longrightarrow> (\<And>e. P e \<Longrightarrow> Q e) \<Longrightarrow> \<forall>e\<in>set ev. Q e"
  by (simp add: loop_post_def)

lemma loop_post_Inl:
  "loop_post w P n (Inl err) ev \<Longrightarrow> ok_trace w ev \<or> aborted w ev"
  by (simp add: loop_post_def)

lemma loop_post_Inr:
  "loop_post w P n (Inr es) ev \<Longrightarrow> ok_trace w ev \<and> probe_count ev = n"
  by (simp add: loop_post_def)

lemma createHLS_cases:
  assumes run: "createHLSForStreams w outputDir filePath fileName strs [Probe filePath] = (r, tr)"
  shows "\<exists>ev. (\<forall>e\<in>set ev. loop_event filePath (path_join outputDir fileName) e) \<and>
     (case r of
        Inl err \<Rightarrow>
          tr = [Probe filePath, Mkdir (path_join outputDir fileName)] @ ev \<and>
          (ok_trace w ev \<or> aborted w ev)
      | Inr url \<Rightarrow>
          url = fileName @ ''/master.m3u8'' \<and>
          (\<exists>text. tr = [Probe filePath, Mkdir (path_join outputDir fileName)] @ ev @
                    [WriteFile (path_join outputDir fileName @ ''/master.m3u8'') text]) \<and>
          ok_trace w ev \<and>
          probe_count ev = length (video strs) + 2 * length (audio strs) + length (subtitle strs))"
proof -
  let ?op = "path_join outputDir fileName"
  let ?tr0 = "[Probe filePath] @ [Mkdir ?op]"
  let ?L = "loop_event filePath ?op"
  obtain r1 tr1 where v: "video_loop w filePath ?op 0 (video strs) [] ?tr0 = (r1, tr1)"
    by (cases "video_loop w filePath ?op 0 (video strs) [] ?tr0") blast
  from video_loop_post [OF v] obtain ev1 where ev1: "tr1 = ?tr0 @ ev1"
    and post1: "loop_post w (video_event filePath ?op) (length (video strs)) r1 ev1" by blast
  have L1: "\<forall>e\<in>set ev1. ?L e"
    by (rule loop_post_events [OF post1]) (simp add: loop_event_def)
  show ?thesis
  proof (cases r1)
    case (Inl e1)
    with run v have "r = Inl e1" "tr = tr1"
      by (simp_all add: createHLSForStreams_def Let_def)
    with ev1 L1 loop_post_Inl [OF post1 [unfolded Inl]] show ?thesis
      by auto
  next
    case ves: (Inr ves)
    note ok1 = loop_post_Inr [OF post1 [unfolded ves]]
    obtain r2 tr2 where a: "audio_loop w filePath ?op 0 (audio strs) [] tr1 = (r2, tr2)"
      by (cases "audio_loop w filePath ?op 0 (audio strs) [] tr1") blast
    from audio_loop_post [OF a] obtain ev2 where ev2: "tr2 = tr1 @ ev2"
      and post2: "loop_post w (audio_event filePath ?op) (2 * length (audio strs)) r2 ev2"
      by blast
    have L2: "\<forall>e\<in>set ev2. ?L e"
      by (rule loop_post_events [OF post2]) (simp add: loop_event_def)
    show ?thesis
    proof (cases r2)
      case (Inl e2)
      with run v ves a have "r = Inl e2" "tr = tr2"
        by (simp_all add: createHLSForStreams_def Let_def)
      moreover have "ok_trace w (ev1 @ ev2) \<or> aborted w (ev1 @ ev2)"
        using ok1 loop_post_Inl [OF post2 [unfolded Inl]]
        by (auto simp: ok_trace_append aborted_append)
      moreover have "\<forall>e\<in>set (ev1 @ ev2). ?L e"
        using L1 L2 by auto
      ultimately have "(\<forall>e\<in>set (ev1 @ ev2). ?L e) \<and>
          (case r of
             Inl err \<Rightarrow> tr = [Probe filePath, Mkdir ?op] @ (ev1 @ ev2) \<and>
               (ok_trace w (ev1 @ ev2) \<or> aborted w (ev1 @ ev2))
           | Inr url \<Rightarrow> False)"
        using ev1 ev2 by simp
      then show ?thesis
        by (intro exI [of _ "ev1 @ ev2"]) (auto split: sum.splits)
    next
      case aes: (Inr aes)
      note ok2 = loop_post_Inr [OF post2 [unfolded aes]]
      obtain r3 tr3 where s: "subtitle_loop w filePath ?op 0 (subtitle strs) [] tr2 = (r3, tr3)"
        by (cases "subtitle_loop w filePath ?op 0 (subtitle strs) [] tr2") blast
      from subtitle_loop_post [OF s] obtain ev3 where ev3: "tr3 = tr2 @ ev3"
        and post3: "loop_post w (subtitle_event filePath ?op) (length (subtitle strs)) r3 ev3"
        by blast
      have L3: "\<forall>e\<in>set ev3. ?L e"
        by (rule loop_post_events [OF post3]) (simp add: loop_event_def)
      have L: "\<forall>e\<in>set (ev1 @ ev2 @ ev3). ?L e"
        using L1 L2 L3 by auto
      have tr3: "tr3 = [Probe filePath, Mkdir ?op] @ (ev1 @ ev2 @ ev3)"
        using ev1 ev2 ev3 by simp
      show ?thesis
      proof (cases r3)
        case (Inl e3)
        with run v ves a aes s have "r = Inl e3" "tr = tr3"
          by (simp_all add: createHLSForStreams_def Let_def)
        moreover have "ok_trace w (ev1 @ ev2 @ ev3) \<or> aborted w (ev1 @ ev2 @ ev3)"
          using ok1 ok2 loop_post_Inl [OF post3 [unfolded Inl]]
          by (auto simp: ok_trace_append aborted_append)
        ultimately have "(\<forall>e\<in>set (ev1 @ ev2 @ ev3). ?L e) \<and>
            (case r of
               Inl err \<Rightarrow> tr = [Probe filePath, Mkdir ?op] @ (ev1 @ ev2 @ ev3) \<and>
                 (ok_trace w (ev1 @ ev2 @ ev3) \<or> aborted w (ev1 @ ev2 @ ev3))
             | Inr url \<Rightarrow> False)"
          using L tr3 by simp
        then show ?thesis
          by (intro exI [of _ "ev1 @ ev2 @ ev3"]) (auto split: sum.splits)
      next
        case ses: (Inr ses)
        note ok3 = loop_post_Inr [OF post3 [unfolded ses]]
        from run v ves a aes s ses have res: "r = Inr (fileName @ ''/master.m3u8'')"
          "tr = tr3 @ [WriteFile (?op @ ''/master.m3u8'') (join nl (aes @ ses @ ves))]"
          by (simp_all add: createHLSForStreams_def Let_def)
        have "ok_trace w (ev1 @ ev2 @ ev3)"
          using ok1 ok2 ok3 by (simp add: ok_trace_append)
        moreover have "probe_count (ev1 @ ev2 @ ev3) =
            length (video strs) + 2 * length (audio strs) + length (subtitle strs)"
          using ok1 ok2 ok3 by (simp add: probe_count_append)
        moreover have "\<exists>text. tr = [Probe filePath, Mkdir ?op] @ (ev1 @ ev2 @ ev3) @
            [WriteFile (?op @ ''/master.m3u8'') text]"
          using res(2) tr3 by simp
        ultimately have "(\<forall>e\<in>set (ev1 @ ev2 @ ev3). ?L e) \<and>
            (case r of
               Inl err \<Rightarrow> False
             | Inr url \<Rightarrow> url = fileName @ ''/master.m3u8'' \<and>
                 (\<exists>text. tr = [Probe filePath, Mkdir ?op] @ (ev1 @ ev2 @ ev3) @
                    [WriteFile (?op @ ''/master.m3u8'') text]) \<and>
                 ok_trace w (ev1 @ ev2 @ ev3) \<and>
                 probe_count (ev1 @ ev2 @ ev3) =
                   length (video strs) + 2 * length (audio strs) + length (subtitle strs))"
          using L res(1) by simp
        then show ?thesis
          by (intro exI [of _ "ev1 @ ev2 @ ev3"]) (auto split: sum.splits)
      qed
    qed
  qed
qed

lemma upload_cases:
  assumes run: "upload w outputDir file [] = (resp, tr)"
  shows "(\<exists>err. ffprobe_result w 0 (file_path file) = Inl err \<and>
            resp = Status500 ''Error processing video.'' \<and> tr = [Probe (file_path file)]) \<or>
         (\<exists>md ev. ffprobe_result w 0 (file_path file) = Inr md \<and>
            (\<forall>e\<in>set ev.
               loop_event (file_path file)
                 (path_join outputDir (path_parse_name (file_filename file))) e) \<and>
            (resp = Status500 ''Error processing video.'' \<and>
             tr = [Probe (file_path file),
                   Mkdir (path_join outputDir (path_parse_name (file_filename file)))] @ ev \<and>
             (ok_trace w ev \<or> aborted w ev) \<or>
             resp = Json ''Video processed with all streams.''
                      (''/streams/'' @ path_parse_name (file_filename file) @ ''/master.m3u8'') \<and>
             (\<exists>text.
                tr = [Probe (file_path file),
                      Mkdir (path_join outputDir (path_parse_name (file_filename file)))] @ ev @
                     [WriteFile (path_join outputDir (path_parse_name (file_filename file)) @
                        ''/master.m3u8'') text]) \<and>
             ok_trace w ev \<and>
             probe_count ev =
               length (video (classify md)) + 2 * length (audio (classify md)) +
               length (subtitle (classify md))))"
proof (cases "ffprobe_result w 0 (file_path file)")
  case (Inl err)
  with run show ?thesis
    by (auto simp: upload_def analyzeStreams_def ffprobe_def Let_def)
next
  case (Inr md)
  let ?fp = "file_path file"
  let ?name = "path_parse_name (file_filename file)"
  obtain r tr2 where c:
    "createHLSForStreams w outputDir ?fp ?name (classify md) [Probe ?fp] = (r, tr2)"
    by (cases "createHLSForStreams w outputDir ?fp ?name (classify md) [Probe ?fp]") blast
  from createHLS_cases [OF c] obtain ev where
    L: "\<forall>e\<in>set ev. loop_event ?fp (path_join outputDir ?name) e"
    and post: "case r of
        Inl err \<Rightarrow>
          tr2 = [Probe ?fp, Mkdir (path_join outputDir ?name)] @ ev \<and>
          (ok_trace w ev \<or> aborted w ev)
      | Inr url \<Rightarrow>
          url = ?name @ ''/master.m3u8'' \<and>
          (\<exists>text. tr2 = [Probe ?fp, Mkdir (path_join outputDir ?name)] @ ev @
                    [WriteFile (path_join outputDir ?name @ ''/master.m3u8'') text]) \<and>
          ok_trace w ev \<and>
          probe_count ev = length (video (classify md)) + 2 * length (audio (classify md)) +
            length (subtitle (classify md))"
    by blast
  show ?thesis
  proof (cases r)
    case e: (Inl e)
    with run Inr c have "resp = Status500 ''Error processing video.''" "tr = tr2"
      by (simp_all add: upload_def analyzeStreams_def ffprobe_def Let_def)
    with post e L Inr show ?thesis
      by (intro disjI2 exI [of _ md] exI [of _ ev]) simp
  next
    case u: (Inr url)
    with run Inr c have
      "resp = Json ''Video processed with all streams.'' (''/streams/'' @ url)" "tr = tr2"
      by (simp_all add: upload_def analyzeStreams_def ffprobe_def Let_def)
    with post u L Inr show ?thesis
      by (intro disjI2 exI [of _ md] exI [of _ ev]) simp
  qed
qed

lemma loop_event_not_mkdir: "loop_event filePath outputPath e \<Longrightarrow> \<not> is_mkdir e"
  by (auto simp: loop_event_def video_event_def audio_event_def subtitle_event_def)

lemma loop_event_not_master:
  "loop_event filePath outputPath e \<Longrightarrow> e \<noteq> WriteFile (outputPath @ ''/master.m3u8'') text"
  by (auto simp: loop_event_def video_event_def audio_event_def subtitle_event_def)

lemma ok_trace_Run: "ok_trace w tr \<Longrightarrow> Run c \<in> set tr \<Longrightarrow> ffmpeg_result w c = None"
  by (simp add: ok_trace_def)

subsection \<open>The commands issued for a stream\<close>

lemma runs_append: "runs (a @ b) = runs a @ runs b"
proof (induction a)
  case Nil
  show ?case by simp
next
  case (Cons e a)
  then show ?case by (cases e) simp_all
qed

lemma runs_concat: "runs (concat (map f xs)) = concat (map (\<lambda>x. runs (f x)) xs)"
  by (induction xs) (simp_all add: runs_append)

lemma commands_for_append: "commands_for k (a @ b) = commands_for k a @ commands_for k b"
  by (simp add: commands_for_def runs_append)

lemma commands_for_simps [simp]:
  "commands_for k [] = []"
  "commands_for k (Probe p # tr) = commands_for k tr"
  "commands_for k (Mkdir d # tr) = commands_for k tr"
  "commands_for k (WriteFile f c # tr) = commands_for k tr"
  by (simp_all add: commands_for_def)

lemma commands_for_concat_enumerate:
  assumes other: "\<And>i k'. k' \<noteq> k \<Longrightarrow> commands_for k (f (i, k')) = []"
    and own: "\<And>i. commands_for k (f (i, k)) = runs (f (i, k))"
  shows "commands_for k (concat (map f (enumerate n idxs))) =
         concat (map (\<lambda>ik. runs (f ik)) (filter (\<lambda>ik. snd ik = k) (enumerate n idxs)))"
proof (induction idxs arbitrary: n)
  case Nil
  show ?case by simp
next
  case (Cons k' rest)
  show ?case
  proof (cases "k' = k")
    case True
    with Cons.IH [of "Suc n"] show ?thesis
      by (simp add: commands_for_append own)
  next
    case False
    with Cons.IH [of "Suc n"] show ?thesis
      by (simp add: commands_for_append other)
  qed
qed

lemma enumerate_sndD: "(i, k) \<in> set (enumerate n xs) \<Longrightarrow> k \<in> set xs"
proof -
  assume "(i, k) \<in> set (enumerate n xs)"
  then have "n \<le> i" "i < length xs + n" "xs ! (i - n) = k"
    by (simp_all add: in_set_enumerate_eq)
  then have "i - n < length xs" "xs ! (i - n) = k" by simp_all
  then show ?thesis using nth_mem by blast
qed

lemma filter_snd_enumerate_notin:
  "k \<notin> set idxs \<Longrightarrow> filter (\<lambda>ik. snd ik = k) (enumerate n idxs) = []"
  by (auto simp: filter_empty_conv dest: enumerate_sndD)

lemma filter_snd_enumerate_in:
  "distinct idxs \<Longrightarrow> (i, k) \<in> set (enumerate n idxs) \<Longrightarrow>
     filter (\<lambda>ik. snd ik = k) (enumerate n idxs) = [(i, k)]"
proof (induction idxs arbitrary: n)
  case Nil
  then show ?case by simp
next
  case (Cons k' rest)
  show ?case
  proof (cases "k' = k")
    case True
    with Cons.prems(1) have notin: "k \<notin> set rest" by simp
    then have "(i, k) \<notin> set (enumerate (Suc n) rest)"
      by (auto dest: enumerate_sndD)
    with Cons.prems(2) True have "i = n" by simp
    with True notin show ?thesis by (simp add: filter_snd_enumerate_notin)
  next
    case False
    with Cons.prems have "distinct rest" "(i, k) \<in> set (enumerate (Suc n) rest)" by auto
    from Cons.IH [OF this] False show ?thesis by simp
  qed
qed

lemma distinct_indices_of_type: "distinct (indices_of_type ty md)"
  by (simp add: indices_of_type_def)

lemma enumerate_indices_of_typeD:
  assumes "(i, k) \<in> set (enumerate 0 (indices_of_type ty md))"
  shows "k \<in> set (indices_of_type ty md)" "k < length md" "codec_type (md ! k) = ty"
    "(i, md ! k) \<in> set (streams_of_type ty md)"
proof -
  from assms show k: "k \<in> set (indices_of_type ty md)" by (rule enumerate_sndD)
  then show "k < length md" "codec_type (md ! k) = ty"
    by (simp_all add: indices_of_typeD)
  from assms have "(\<lambda>p. (fst p, md ! snd p)) (i, k) \<in>
      set (map (\<lambda>p. (fst p, md ! snd p)) (enumerate 0 (indices_of_type ty md)))"
    by (simp only: set_map) (rule imageI)
  then show "(i, md ! k) \<in> set (streams_of_type ty md)"
    by (simp add: enumerate_indices_of_type)
qed

lemma map_option_video [simp]:
  "option_value (video_command filePath outputPath i k b) ''-map'' = Some (''0:'' @ string_of_nat k)"
  by (simp add: option_value_def video_command_def)

lemma map_option_audio [simp]:
  "option_value (audio_command filePath outputPath i k b) ''-map'' = Some (''0:'' @ string_of_nat k)"
  by (simp add: option_value_def audio_command_def)

lemma map_option_subtitle [simp]:
  "option_value (subtitle_command filePath outputPath i k) ''-map'' = Some (''0:'' @ string_of_nat k)"
  by (simp add: option_value_def subtitle_command_def)

lemma string_of_nat_eq_iff [simp]: "string_of_nat a = string_of_nat b \<longleftrightarrow> a = b"
  by (auto dest: string_of_nat_inj)

lemma commands_for_video_events:
  "commands_for k (video_events filePath outputPath md (i, k')) =
     (if k' = k then runs (video_events filePath outputPath md (i, k')) else [])"
  by (simp add: commands_for_def video_events_def)

lemma commands_for_audio_events:
  "commands_for k (audio_events filePath outputPath md (i, k')) =
     (if k' = k then runs (audio_events filePath outputPath md (i, k')) else [])"
  by (simp add: commands_for_def audio_events_def)

lemma commands_for_subtitle_events:
  "commands_for k (subtitle_events filePath outputPath md (i, k')) =
     (if k' = k then runs (subtitle_events filePath outputPath md (i, k')) else [])"
  by (simp add: commands_for_def subtitle_events_def)

lemma commands_for_job_events:
  "commands_for k (job_events filePath outputPath md) =
     concat (map (\<lambda>ik. runs (video_events filePath outputPath md ik))
       (filter (\<lambda>ik. snd ik = k) (enumerate 0 (indices_of_type ''video'' md)))) @
     concat (map (\<lambda>ik. runs (audio_events filePath outputPath md ik))
       (filter (\<lambda>ik. snd ik = k) (enumerate 0 (indices_of_type ''audio'' md)))) @
     concat (map (\<lambda>ik. runs (subtitle_events filePath outputPath md ik))
       (filter (\<lambda>ik. snd ik = k) (enumerate 0 (indices_of_type ''subtitle'' md))))"
proof -
  have v: "commands_for k (concat (map (video_events filePath outputPath md) (enumerate 0 idxs))) =
      concat (map (\<lambda>ik. runs (video_events filePath outputPath md ik))
        (filter (\<lambda>ik. snd ik = k) (enumerate 0 idxs)))" for idxs
    by (rule commands_for_concat_enumerate) (simp_all add: commands_for_video_events)
  have a: "commands_for k (concat (map (audio_events filePath outputPath md) (enumerate 0 idxs))) =
      concat (map (\<lambda>ik. runs (audio_events filePath outputPath md ik))
        (filter (\<lambda>ik. snd ik = k) (enumerate 0 idxs)))" for idxs
    by (rule commands_for_concat_enumerate) (simp_all add: commands_for_audio_events)
  have s: "commands_for k (concat (map (subtitle_events filePath outputPath md) (enumerate 0 idxs))) =
      concat (map (\<lambda>ik. runs (subtitle_events filePath outputPath md ik))
        (filter (\<lambda>ik. snd ik = k) (enumerate 0 idxs)))" for idxs
    by (rule commands_for_concat_enumerate) (simp_all add: commands_for_subtitle_events)
  show ?thesis
    unfolding job_events_def
    by (simp only: commands_for_append commands_for_simps v a s append_Nil2 append_Cons append_Nil)
qed

lemma commands_for_typed:
  assumes "(i, k) \<in> set (enumerate 0 (indices_of_type ty md))"
  shows "commands_for k (job_events filePath outputPath md) =
     (if ty = ''video'' then runs (video_events filePath outputPath md (i, k)) else []) @
     (if ty = ''audio'' then runs (audio_events filePath outputPath md (i, k)) else []) @
     (if ty = ''subtitle'' then runs (subtitle_events filePath outputPath md (i, k)) else [])"
proof -
  note k = enumerate_indices_of_typeD [OF assms]
  have own: "filter (\<lambda>ik. snd ik = k) (enumerate 0 (indices_of_type ty md)) = [(i, k)]"
    using distinct_indices_of_type assms by (rule filter_snd_enumerate_in)
  have other: "filter (\<lambda>ik. snd ik = k) (enumerate 0 (indices_of_type ty' md)) = []"
    if "ty' \<noteq> ty" for ty'
  proof (rule filter_snd_enumerate_notin)
    show "k \<notin> set (indices_of_type ty' md)"
      using k(3) that by (auto dest: indices_of_typeD)
  qed
  have sel: "filter (\<lambda>ik. snd ik = k) (enumerate 0 (indices_of_type ty' md)) =
      (if ty' = ty then [(i, k)] else [])" for ty'
    using own other [of ty'] by simp
  show ?thesis
    unfolding commands_for_job_events sel by simp
qed

lemma enumerate_ex: "k \<in> set xs \<Longrightarrow> \<exists>i. (i, k) \<in> set (enumerate n xs)"
proof -
  assume "k \<in> set xs"
  then obtain j where "j < length xs" "xs ! j = k"
    by (auto simp: in_set_conv_nth)
  then have "(n + j, k) \<in> set (enumerate n xs)"
    by (simp add: in_set_enumerate_eq)
  then show ?thesis ..
qed

lemma nth_of_type_ex:
  "k < length md \<Longrightarrow> \<exists>i. nth_of_type (codec_type (md ! k)) md i k"
proof -
  assume "k < length md"
  then have "k \<in> set (indices_of_type (codec_type (md ! k)) md)"
    by (simp add: indices_of_type_def)
  then show ?thesis
    unfolding nth_of_type_def by (rule enumerate_ex)
qed

lemma commands_for_nth_of_type:
  assumes "nth_of_type ty md i k"
  shows "commands_for k (job_events filePath outputPath md) =
     (if ty = ''video''
      then [video_command filePath outputPath i k (codec_name (md ! k) = ''h264'')]
      else if ty = ''audio''
      then [audio_command filePath outputPath i k (codec_name (md ! k) = ''aac'')]
      else if ty = ''subtitle'' \<and> \<not> unsupported_subtitle (codec_name (md ! k))
      then [subtitle_command filePath outputPath i k]
      else [])"
proof -
  from assms have e: "(i, k) \<in> set (enumerate 0 (indices_of_type ty md))"
    by (simp add: nth_of_type_def)
  note ty = enumerate_indices_of_typeD(3) [OF e]
  show ?thesis
    unfolding commands_for_typed [OF e]
    using ty by (auto simp: video_events_def audio_events_def subtitle_events_def)
qed

lemma commands_for_other:
  assumes "k < length md" and "codec_type (md ! k) \<notin> {''video'', ''audio'', ''subtitle''}"
  shows "commands_for k (job_events filePath outputPath md) = []"
proof -
  have "k \<notin> set (indices_of_type ty md)" if "ty \<in> {''video'', ''audio'', ''subtitle''}" for ty
    using assms(2) that by (auto dest: indices_of_typeD)
  then show ?thesis
    unfolding commands_for_job_events by (simp add: filter_snd_enumerate_notin)
qed

lemma subtitle_events_in_job:
  assumes "nth_of_type ''subtitle'' md i k"
  shows "set (subtitle_events filePath outputPath md (i, k)) \<subseteq>
         set (job_events filePath outputPath md)"
proof -
  from assms have "(i, k) \<in> set (enumerate 0 (indices_of_type ''subtitle'' md))"
    by (simp add: nth_of_type_def)
  then have "set (subtitle_events filePath outputPath md (i, k)) \<subseteq>
      set (concat (map (subtitle_events filePath outputPath md)
             (enumerate 0 (indices_of_type ''subtitle'' md))))"
    by auto
  then show ?thesis
    unfolding job_events_def by auto
qed

subsection \<open>The text of the master playlist\<close>

lemma join_prefix: "prefix x (join sep (x # xs))"
  by (cases xs) simp_all

lemma last_join: "xs \<noteq> [] \<Longrightarrow> last xs \<noteq> [] \<Longrightarrow> last (join sep xs) = last (last xs)"
proof (induction sep xs rule: join.induct)
  case (1 sep)
  then show ?case by simp
next
  case (2 sep x)
  then show ?case by simp
next
  case (3 sep x y ys)
  then have "last (join sep (y # ys)) = last (last (y # ys))" by simp
  moreover have "join sep (y # ys) \<noteq> []"
  proof
    assume "join sep (y # ys) = []"
    with "3.prems" show False by (cases ys) simp_all
  qed
  ultimately show ?case by simp
qed

lemma media_entry_shape:
  "prefix ''#EXT-X-'' (media_entry ty grp stem lang i) \<and>
   media_entry ty grp stem lang i \<noteq> [] \<and> last (media_entry ty grp stem lang i) \<noteq> nl"
  by (simp add: media_entry_def dq_def nl_def)

lemma video_entry_shape:
  "prefix ''#EXT-X-'' (video_entry i) \<and> video_entry i \<noteq> [] \<and> last (video_entry i) \<noteq> nl"
  by (simp add: video_entry_def dq_def nl_def)

lemma manifest_line_shape:
  assumes "e \<in> set (spec_manifest_lines md)"
  shows "prefix ''#EXT-X-'' e \<and> e \<noteq> [] \<and> last e \<noteq> nl"
  using assms media_entry_shape video_entry_shape
  by (auto simp: spec_manifest_lines_def spec_audio_lines_def spec_subtitle_lines_def
      spec_video_lines_def audio_entry_def subtitle_entry_def)

subsection \<open>Counting commands\<close>

lemma indices_singleton:
  assumes "filter (\<lambda>s. codec_type s = ty) md = [v]"
  shows "\<exists>k. indices_of_type ty md = [k] \<and> md ! k = v"
proof -
  from assms have "map ((!) md) (indices_of_type ty md) = [v]"
    by (simp add: map_nth_indices_of_type)
  then show ?thesis by (auto simp: map_eq_Cons_conv)
qed

lemma indices_pair:
  assumes "filter (\<lambda>s. codec_type s = ty) md = [a, b]"
  shows "\<exists>k l. indices_of_type ty md = [k, l] \<and> md ! k = a \<and> md ! l = b"
proof -
  from assms have "map ((!) md) (indices_of_type ty md) = [a, b]"
    by (simp add: map_nth_indices_of_type)
  then show ?thesis by (auto simp: map_eq_Cons_conv)
qed

lemma runs_job_events:
  "runs (job_events filePath outputPath md) =
     concat (map (\<lambda>ik. runs (video_events filePath outputPath md ik))
       (enumerate 0 (indices_of_type ''video'' md))) @
     concat (map (\<lambda>ik. runs (audio_events filePath outputPath md ik))
       (enumerate 0 (indices_of_type ''audio'' md))) @
     concat (map (\<lambda>ik. runs (subtitle_events filePath outputPath md ik))
       (enumerate 0 (indices_of_type ''subtitle'' md)))"
  by (simp add: job_events_def runs_append runs_concat)

lemma command_kinds [simp]:
  "video_passthrough (video_command filePath outputPath i k b) = b"
  "\<not> audio_passthrough (video_command filePath outputPath i k b)"
  "\<not> audio_reencode (video_command filePath outputPath i k b)"
  "\<not> subtitle_transcode (video_command filePath outputPath i k b)"
  "\<not> video_passthrough (audio_command filePath outputPath i k b)"
  "audio_passthrough (audio_command filePath outputPath i k b) = b"
  "audio_reencode (audio_command filePath outputPath i k b) = (\<not> b)"
  "\<not> subtitle_transcode (audio_command filePath outputPath i k b)"
  "\<not> video_passthrough (subtitle_command filePath outputPath i k)"
  "\<not> audio_passthrough (subtitle_command filePath outputPath i k)"
  "\<not> audio_reencode (subtitle_command filePath outputPath i k)"
  "subtitle_transcode (subtitle_command filePath outputPath i k)"
  by (simp_all add: video_passthrough_def audio_passthrough_def audio_reencode_def
      subtitle_transcode_def option_value_def video_command_def audio_command_def
      subtitle_command_def)

subsection \<open>The lines of the master playlist\<close>

lemma split_lines_nonempty: "split_lines s \<noteq> []"
  by (induction s) (auto split: list.splits)

lemma split_lines_append_nl: "split_lines (a @ nl # b) = split_lines a @ split_lines b"
proof (induction a)
  case Nil
  show ?case by simp
next
  case (Cons c a)
  obtain l ls where ls: "split_lines a = l # ls"
    using split_lines_nonempty [of a] by (cases "split_lines a") auto
  with Cons show ?case by simp
qed

lemma split_lines_single: "nl \<notin> set a \<Longrightarrow> split_lines a = [a]"
  by (induction a) auto

lemma split_lines_join:
  "xs \<noteq> [] \<Longrightarrow> split_lines (join nl xs) = concat (map split_lines xs)"
proof (induction xs rule: induct_list012)
  case 1
  then show ?case by simp
next
  case (2 x)
  show ?case by simp
next
  case (3 x y ys)
  then show ?case by (simp add: split_lines_append_nl)
qed

lemma nl_not_digit: "nl \<notin> set (string_of_nat i)"
  using string_of_nat_digits [of i] by (auto simp: nl_def)

lemma lang_of_language_tag: "lang_of (Some s) = language_tag s"
  by (simp add: lang_of_def language_tag_def)

lemma audio_entry_text: "audio_entry lang i = audio_rendition_line lang i"
  by (simp add: audio_entry_def media_entry_def audio_rendition_line_def dq_def)

lemma subtitle_entry_text: "subtitle_entry lang i = subtitle_rendition_line lang i"
  by (simp add: subtitle_entry_def media_entry_def subtitle_rendition_line_def dq_def)

lemma video_entry_text: "video_entry i = variant_line @ nl # variant_uri_line i"
  by (simp add: video_entry_def variant_line_def variant_uri_line_def dq_def)

lemma split_audio_line:
  "nl \<notin> set lang \<Longrightarrow> split_lines (audio_rendition_line lang i) = [audio_rendition_line lang i]"
  using nl_not_digit [of i]
  by (intro split_lines_single) (auto simp: audio_rendition_line_def nl_def)

lemma split_subtitle_line:
  "nl \<notin> set lang \<Longrightarrow>
     split_lines (subtitle_rendition_line lang i) = [subtitle_rendition_line lang i]"
  using nl_not_digit [of i]
  by (intro split_lines_single) (auto simp: subtitle_rendition_line_def nl_def)

lemma split_video_entry: "split_lines (video_entry i) = [variant_line, variant_uri_line i]"
proof -
  have "nl \<notin> set variant_line"
    by (simp add: variant_line_def nl_def)
  moreover have "nl \<notin> set (variant_uri_line i)"
    using nl_not_digit [of i] by (auto simp: variant_uri_line_def nl_def)
  ultimately show ?thesis
    by (simp add: video_entry_text split_lines_append_nl split_lines_single)
qed

lemma streams_of_typeD: "is \<in> set (streams_of_type ty md) \<Longrightarrow> snd is \<in> set md"
proof -
  assume "is \<in> set (streams_of_type ty md)"
  then have "(fst is, snd is) \<in> set (enumerate 0 (filter (\<lambda>s. codec_type s = ty) md))"
    by (simp add: streams_of_type_def)
  then have "snd is \<in> set (filter (\<lambda>s. codec_type s = ty) md)"
    by (rule enumerate_sndD)
  then show ?thesis by simp
qed

lemma concat_map_split_lines:
  "(\<And>x. x \<in> set xs \<Longrightarrow> split_lines (f x) = [g x]) \<Longrightarrow>
     concat (map split_lines (map f xs)) = map g xs"
  by (induction xs) simp_all

lemma split_spec_manifest_lines:
  assumes "single_line_tags md"
  shows "concat (map split_lines (spec_manifest_lines md)) = manifest_text_lines md"
proof -
  have tag: "nl \<notin> set (language_tag (snd is))" if "is \<in> set (streams_of_type ty md)" for "is" ty
    using assms streams_of_typeD [OF that] by (auto simp: single_line_tags_def nl_def)
  have a: "concat (map split_lines (spec_audio_lines md)) =
      map (\<lambda>is. audio_rendition_line (language_tag (snd is)) (fst is))
        (streams_of_type ''audio'' md)"
    unfolding spec_audio_lines_def
    by (rule concat_map_split_lines)
      (simp add: audio_entry_text lang_of_language_tag split_audio_line tag)
  have acc: "filter (\<lambda>is. \<not> unsupported_subtitle (codec_name (snd is)))
      (streams_of_type ''subtitle'' md) = accepted_subtitles md"
    by (simp add: accepted_subtitles_def unsupported_subtitle_def)
  have s: "concat (map split_lines (spec_subtitle_lines md)) =
      map (\<lambda>is. subtitle_rendition_line (language_tag (snd is)) (fst is))
        (accepted_subtitles md)"
    unfolding spec_subtitle_lines_def acc
  proof (rule concat_map_split_lines)
    fix x
    assume "x \<in> set (accepted_subtitles md)"
    then have "x \<in> set (streams_of_type ''subtitle'' md)"
      by (simp add: accepted_subtitles_def)
    from tag [OF this]
    show "split_lines (subtitle_entry (lang_of (Some (snd x))) (fst x)) =
        [subtitle_rendition_line (language_tag (snd x)) (fst x)]"
      by (simp add: subtitle_entry_text lang_of_language_tag split_subtitle_line)
  qed
  have v: "concat (map split_lines (spec_video_lines md)) =
      concat (map (\<lambda>is. [variant_line, variant_uri_line (fst is)])
        (streams_of_type ''video'' md))"
    by (simp add: spec_video_lines_def comp_def split_video_entry)
  show ?thesis
    by (simp add: spec_manifest_lines_def manifest_text_lines_def a s v)
qed

lemma manifest_text_lines_Nil:
  "manifest_text_lines md = [] \<longleftrightarrow> spec_manifest_lines md = []"
  by (cases "streams_of_type ''video'' md")
    (auto simp: manifest_text_lines_def spec_manifest_lines_def spec_audio_lines_def
      spec_subtitle_lines_def spec_video_lines_def accepted_subtitles_def
      unsupported_subtitle_def)

lemma master_text_lines:
  assumes "single_line_tags md"
  shows "if manifest_text_lines md = [] then join nl (spec_manifest_lines md) = []
         else split_lines (join nl (spec_manifest_lines md)) = manifest_text_lines md"
proof (cases "manifest_text_lines md = []")
  case True
  then show ?thesis by (simp add: manifest_text_lines_Nil)
next
  case False
  then have "spec_manifest_lines md \<noteq> []" by (simp add: manifest_text_lines_Nil)
  then show ?thesis
    using False by (simp add: split_lines_join split_spec_manifest_lines [OF assms])
qed

lemma tag_lines [simp]:
  "tag_line (audio_rendition_line lang i)" "tag_line (subtitle_rendition_line lang i)"
  "tag_line variant_line" "\<not> tag_line (variant_uri_line i)" "\<not> tag_line []"
  by (simp_all add: tag_line_def audio_rendition_line_def subtitle_rendition_line_def
      variant_line_def variant_uri_line_def)

lemma count_tag_lines:
  "length (filter tag_line (manifest_text_lines md)) =
     length (streams_of_type ''audio'' md) + length (accepted_subtitles md) +
     length (streams_of_type ''video'' md)"
proof -
  have "length (filter tag_line (concat (map (\<lambda>is. [variant_line, variant_uri_line (fst is)]) xs)))
      = length xs" for xs :: "(nat \<times> stream_info) list"
    by (induction xs) simp_all
  then show ?thesis
    by (simp add: manifest_text_lines_def filter_map comp_def)
qed

lemma written_master_lines:
  assumes "stable w (file_path file) md"
    and "upload w outputDir file [] = (Json msg url, tr)"
    and "single_line_tags md"
  shows "\<exists>content.
     written (path_join outputDir (path_parse_name (file_filename file)) @ ''/master.m3u8'') tr =
       Some content \<and>
     (if manifest_text_lines md = [] then content = []
      else split_lines content = manifest_text_lines md)"
  using upload_completed [OF assms(1,2)] master_text_lines [OF assms(3)]
  by (simp add: written_job_events)

lemma line_kinds [simp]:
  "prefix ''#EXT-X-MEDIA:TYPE=AUDIO,'' (audio_rendition_line lang i)"
  "\<not> prefix ''#EXT-X-MEDIA:TYPE=SUBTITLES,'' (audio_rendition_line lang i)"
  "\<not> prefix ''#EXT-X-STREAM-INF:'' (audio_rendition_line lang i)"
  "\<not> prefix ''#EXT-X-MEDIA:TYPE=AUDIO,'' (subtitle_rendition_line lang i)"
  "prefix ''#EXT-X-MEDIA:TYPE=SUBTITLES,'' (subtitle_rendition_line lang i)"
  "\<not> prefix ''#EXT-X-STREAM-INF:'' (subtitle_rendition_line lang i)"
  "\<not> prefix ''#EXT-X-MEDIA:TYPE=AUDIO,'' variant_line"
  "\<not> prefix ''#EXT-X-MEDIA:TYPE=SUBTITLES,'' variant_line"
  "prefix ''#EXT-X-STREAM-INF:'' variant_line"
  "\<not> prefix ''#EXT-X-MEDIA:TYPE=AUDIO,'' (variant_uri_line i)"
  "\<not> prefix ''#EXT-X-MEDIA:TYPE=SUBTITLES,'' (variant_uri_line i)"
  "\<not> prefix ''#EXT-X-STREAM-INF:'' (variant_uri_line i)"
  by (simp_all add: audio_rendition_line_def subtitle_rendition_line_def variant_line_def
      variant_uri_line_def)

subsection \<open>The example job\<close>

lemma example_stable: "stable example_world (file_path example_file) example_container"
  by (simp add: stable_def example_world_def)

lemma example_engine_ok: "engine_ok example_world"
  by (simp add: engine_ok_def example_world_def)

lemma example_job_name: "path_parse_name (file_filename example_file) = ''1700000000000-movie''"
  by (simp add: example_file_def path_parse_name_def path_base_def before_last_dot_def)

lemma example_upload:
  "upload example_world ''output'' example_file [] =
     (Json ''Video processed with all streams.'' ''/streams/1700000000000-movie/master.m3u8'',
      job_events ''uploads/1700000000000-movie.mkv'' ''output/1700000000000-movie''
        example_container)"
  using upload_succeeds [OF example_stable example_engine_ok, of "''output''"]
  by (simp add: example_job_name path_join_def) (simp add: example_file_def)

lemma example_audio_lines:
  "spec_audio_lines example_container = [audio_entry ''eng'' 0, audio_entry ''und'' 1]"
  by (simp add: spec_audio_lines_def streams_of_type_def example_container_def lang_of_def)

lemma example_subtitle_lines:
  "spec_subtitle_lines example_container = [subtitle_entry ''fre'' 1]"
  by (simp add: spec_subtitle_lines_def streams_of_type_def example_container_def lang_of_def
      unsupported_subtitle_def)

lemma example_video_lines:
  "spec_video_lines example_container = [video_entry 0]"
  by (simp add: spec_video_lines_def streams_of_type_def example_container_def)

lemma example_path: "file_path example_file = ''uploads/1700000000000-movie.mkv''"
  by (simp add: example_file_def)

lemma failing_upload:
  "upload failing_world ''output'' example_file [] =
     (Status500 ''Error processing video.'',
      [Probe ''uploads/1700000000000-movie.mkv'', Mkdir ''output/1700000000000-movie'',
       Probe ''uploads/1700000000000-movie.mkv'',
       Run (video_command ''uploads/1700000000000-movie.mkv'' ''output/1700000000000-movie''
              0 0 True),
       Probe ''uploads/1700000000000-movie.mkv'', Probe ''uploads/1700000000000-movie.mkv'',
       Run (audio_command ''uploads/1700000000000-movie.mkv'' ''output/1700000000000-movie''
              0 1 True),
       Probe ''uploads/1700000000000-movie.mkv'', Probe ''uploads/1700000000000-movie.mkv'',
       Run (audio_command ''uploads/1700000000000-movie.mkv'' ''output/1700000000000-movie''
              1 2 False)])"
  by code_simp

lemma unreadable_upload:
  "upload unreadable_world ''output'' example_file [] =
     (Status500 ''Error processing video.'', [Probe ''uploads/1700000000000-movie.mkv''])"
  by code_simp

lemma example_single_line_tags: "single_line_tags example_container"
  by (simp add: single_line_tags_def example_container_def language_tag_def)

section \<open>The claims\<close>

text \<open>
  Claim C1. The master manifest has exactly one default audio rendition when there is an
  audio stream, and exactly one default subtitle rendition when a subtitle stream is
  accepted, the first accepted one. In the example job the first subtitle stream is
  skipped and the second is accepted: the manifest has one default audio rendition, and
  its only subtitle rendition, of type-local index 1, carries \<^verbatim>\<open>DEFAULT=NO\<close>.
\<close>

theorem default_subtitle_missing:
  \<open>let content = join nl
     [''#EXT-X-MEDIA:TYPE=AUDIO,GROUP-ID="audio",LANGUAGE="eng",NAME="eng",AUTOSELECT=YES,DEFAULT=YES,URI="audio_0.m3u8"'',
      ''#EXT-X-MEDIA:TYPE=AUDIO,GROUP-ID="audio",LANGUAGE="und",NAME="und",AUTOSELECT=YES,DEFAULT=NO,URI="audio_1.m3u8"'',
      ''#EXT-X-MEDIA:TYPE=SUBTITLES,GROUP-ID="subs",LANGUAGE="fre",NAME="fre",AUTOSELECT=YES,DEFAULT=NO,URI="sub_1.m3u8"'',
      ''#EXT-X-STREAM-INF:BANDWIDTH=4000000,AUDIO="audios",SUBTITLES="subs"'',
      ''video_0.m3u8'']
   in written ''output/1700000000000-movie/master.m3u8''
        (snd (upload example_world ''output'' example_file [])) = Some content \<and>
      length (default_renditions ''AUDIO'' content) = 1 \<and>
      length (default_renditions ''SUBTITLES'' content) = 0 \<and>
      length (spec_subtitle_lines example_container) = 1\<close>
  by code_simp

text \<open>
  Claim C2. In a completed job whose probes all answer the stream list \<open>md\<close>, a stream
  is skipped, that is no engine command is issued for it, exactly when it is a subtitle
  stream whose codec is \<^verbatim>\<open>hdmv_pgs_subtitle\<close> or \<^verbatim>\<open>subrip\<close> (streams
  that are neither video, audio nor subtitle are not in the inventory at all). A video
  stream gets one command, which copies when the codec is \<^verbatim>\<open>h264\<close> and encodes with
  \<^verbatim>\<open>libx264\<close>, the H.264 encoder, otherwise; an audio stream gets one command, which
  copies when the codec is \<^verbatim>\<open>aac\<close> and encodes to \<^verbatim>\<open>aac\<close> otherwise; an accepted
  subtitle stream gets one command, which converts to WebVTT.
\<close>

theorem decisions:
  assumes st: "stable w (file_path file) md"
    and run: "upload w outputDir file [] = (Json msg url, tr)"
    and k: "k < length md"
  shows "(commands_for k tr = [] \<longleftrightarrow>
            codec_type (md ! k) = ''subtitle'' \<and>
            codec_name (md ! k) \<in> {''hdmv_pgs_subtitle'', ''subrip''} \<or>
            codec_type (md ! k) \<notin> {''video'', ''audio'', ''subtitle''}) \<and>
         (codec_type (md ! k) = ''video'' \<longrightarrow>
            map (\<lambda>c. option_value c ''-c:v'') (commands_for k tr) =
              [Some (if codec_name (md ! k) = ''h264'' then ''copy'' else ''libx264'')]) \<and>
         (codec_type (md ! k) = ''audio'' \<longrightarrow>
            map (\<lambda>c. option_value c ''-c:a'') (commands_for k tr) =
              [Some (if codec_name (md ! k) = ''aac'' then ''copy'' else ''aac'')]) \<and>
         (codec_type (md ! k) = ''subtitle'' \<and>
          codec_name (md ! k) \<notin> {''hdmv_pgs_subtitle'', ''subrip''} \<longrightarrow>
            map (\<lambda>c. option_value c ''-f'') (commands_for k tr) = [Some ''webvtt''])"
proof -
  let ?fp = "file_path file"
  let ?op = "path_join outputDir (path_parse_name (file_filename file))"
  from upload_completed [OF st run] have tr: "tr = job_events ?fp ?op md" by simp
  from nth_of_type_ex [OF k] obtain i where i: "nth_of_type (codec_type (md ! k)) md i k" ..
  note c = commands_for_nth_of_type [OF i, of ?fp ?op]
  show ?thesis
  proof (cases "codec_type (md ! k) \<in> {''video'', ''audio'', ''subtitle''}")
    case True
    then show ?thesis
      unfolding tr c
      by (auto simp: unsupported_subtitle_def option_value_def video_command_def
          audio_command_def subtitle_command_def)
  next
    case False
    with commands_for_other [OF k False, of ?fp ?op] show ?thesis
      unfolding tr by auto
  qed
qed

theorem decisions_witness:
  "commands_for 3 (snd (upload example_world ''output'' example_file [])) = [] \<and>
   map (\<lambda>c. option_value c ''-c:v'')
     (commands_for 0 (snd (upload example_world ''output'' example_file []))) = [Some ''copy''] \<and>
   map (\<lambda>c. option_value c ''-c:a'')
     (commands_for 1 (snd (upload example_world ''output'' example_file []))) = [Some ''copy''] \<and>
   map (\<lambda>c. option_value c ''-c:a'')
     (commands_for 2 (snd (upload example_world ''output'' example_file []))) = [Some ''aac''] \<and>
   map (\<lambda>c. option_value c ''-f'')
     (commands_for 4 (snd (upload example_world ''output'' example_file []))) = [Some ''webvtt'']"
proof -
  have len: "0 < length example_container" "1 < length example_container"
    "2 < length example_container" "3 < length example_container"
    "4 < length example_container"
    by (simp_all add: example_container_def)
  note d = decisions [OF example_stable example_upload]
  from d [OF len(1)] d [OF len(2)] d [OF len(3)] d [OF len(4)] d [OF len(5)]
  show ?thesis
    by (simp add: example_upload example_container_def)
qed

text \<open>
  Claim C3. For every completed job, whose probes all answer the stream list \<open>md\<close> and
  whose language tags hold no newline, the text of the master manifest, split at its
  newlines, is: one rendition line per audio stream, by type-local index; then one
  rendition line per subtitle stream that is not skipped, by type-local index, and none
  for a skipped one; then, per video stream by type-local index, its variant line
  followed by the line of its URI. So the manifest has exactly one tag line per accepted
  stream. With no accepted stream the manifest is empty.
\<close>

theorem manifest_order:
  assumes "stable w (file_path file) md"
    and "upload w outputDir file [] = (Json msg url, tr)"
    and "single_line_tags md"
  shows "\<exists>content.
     written (path_join outputDir (path_parse_name (file_filename file)) @ ''/master.m3u8'') tr =
       Some content \<and>
     (if manifest_text_lines md = [] then content = []
      else split_lines content = manifest_text_lines md) \<and>
     length (filter tag_line (split_lines content)) =
       length (streams_of_type ''audio'' md) + length (accepted_subtitles md) +
       length (streams_of_type ''video'' md)"
proof -
  from written_master_lines [OF assms] obtain content where
    w: "written (path_join outputDir (path_parse_name (file_filename file)) @ ''/master.m3u8'') tr =
          Some content"
    and l: "if manifest_text_lines md = [] then content = []
            else split_lines content = manifest_text_lines md"
    by blast
  have "length (filter tag_line (split_lines content)) =
      length (filter tag_line (manifest_text_lines md))"
    using l by (cases "manifest_text_lines md = []") simp_all
  with w l show ?thesis
    by (simp only: count_tag_lines) blast
qed

theorem manifest_order_witness:
  \<open>\<exists>content.
     written ''output/1700000000000-movie/master.m3u8''
       (snd (upload example_world ''output'' example_file [])) = Some content \<and>
     split_lines content =
       [''#EXT-X-MEDIA:TYPE=AUDIO,GROUP-ID="audio",LANGUAGE="eng",NAME="eng",AUTOSELECT=YES,DEFAULT=YES,URI="audio_0.m3u8"'',
        ''#EXT-X-MEDIA:TYPE=AUDIO,GROUP-ID="audio",LANGUAGE="und",NAME="und",AUTOSELECT=YES,DEFAULT=NO,URI="audio_1.m3u8"'',
        ''#EXT-X-MEDIA:TYPE=SUBTITLES,GROUP-ID="subs",LANGUAGE="fre",NAME="fre",AUTOSELECT=YES,DEFAULT=NO,URI="sub_1.m3u8"'',
        ''#EXT-X-STREAM-INF:BANDWIDTH=4000000,AUDIO="audios",SUBTITLES="subs"'',
        ''video_0.m3u8''] \<and>
     length (filter tag_line (split_lines content)) = 4\<close>
proof -
  have lines: \<open>manifest_text_lines example_container =
       [''#EXT-X-MEDIA:TYPE=AUDIO,GROUP-ID="audio",LANGUAGE="eng",NAME="eng",AUTOSELECT=YES,DEFAULT=YES,URI="audio_0.m3u8"'',
        ''#EXT-X-MEDIA:TYPE=AUDIO,GROUP-ID="audio",LANGUAGE="und",NAME="und",AUTOSELECT=YES,DEFAULT=NO,URI="audio_1.m3u8"'',
        ''#EXT-X-MEDIA:TYPE=SUBTITLES,GROUP-ID="subs",LANGUAGE="fre",NAME="fre",AUTOSELECT=YES,DEFAULT=NO,URI="sub_1.m3u8"'',
        ''#EXT-X-STREAM-INF:BANDWIDTH=4000000,AUDIO="audios",SUBTITLES="subs"'',
        ''video_0.m3u8'']\<close>
    by (simp add: manifest_text_lines_def streams_of_type_def accepted_subtitles_def
        example_container_def language_tag_def audio_rendition_line_def
        subtitle_rendition_line_def variant_line_def variant_uri_line_def)
  have counts: "length (streams_of_type ''audio'' example_container) = 2"
    "length (accepted_subtitles example_container) = 1"
    "length (streams_of_type ''video'' example_container) = 1"
    by (simp_all add: streams_of_type_def accepted_subtitles_def example_container_def)
  from manifest_order [OF example_stable example_upload example_single_line_tags]
  show ?thesis
    by (simp add: lines counts example_upload example_job_name path_join_def)
qed

text \<open>
  Claim C4. For a container with one H.264 video stream, two audio streams of which
  exactly one is AAC, and one subtitle stream that is not skipped, with an engine that
  does not fail, the job completes with four generations: one video passthrough, one
  audio passthrough, one audio re-encode and one subtitle transcode. The text of the
  master manifest, split at its newlines, is two audio rendition lines, one subtitle
  rendition line and one video variant line, which the line of its URI follows.
\<close>

theorem round_trip:
  assumes st: "stable w (file_path file) md" and ok: "engine_ok w"
    and v: "filter (\<lambda>s. codec_type s = ''video'') md = [v]" "codec_name v = ''h264''"
    and a: "filter (\<lambda>s. codec_type s = ''audio'') md = [a1, a2]"
      "(codec_name a1 = ''aac'') \<noteq> (codec_name a2 = ''aac'')"
    and s: "filter (\<lambda>s. codec_type s = ''subtitle'') md = [s]"
      "\<not> unsupported_subtitle (codec_name s)"
    and tags: "single_line_tags md"
  shows "\<exists>url tr content.
     upload w outputDir file [] = (Json ''Video processed with all streams.'' url, tr) \<and>
     length (runs tr) = 4 \<and>
     length (filter video_passthrough (runs tr)) = 1 \<and>
     length (filter audio_passthrough (runs tr)) = 1 \<and>
     length (filter audio_reencode (runs tr)) = 1 \<and>
     length (filter subtitle_transcode (runs tr)) = 1 \<and>
     written (path_join outputDir (path_parse_name (file_filename file)) @ ''/master.m3u8'') tr =
       Some content \<and>
     split_lines content =
       [audio_rendition_line (language_tag a1) 0, audio_rendition_line (language_tag a2) 1,
        subtitle_rendition_line (language_tag s) 0, variant_line, variant_uri_line 0] \<and>
     length (filter (prefix ''#EXT-X-MEDIA:TYPE=AUDIO,'') (split_lines content)) = 2 \<and>
     length (filter (prefix ''#EXT-X-MEDIA:TYPE=SUBTITLES,'') (split_lines content)) = 1 \<and>
     length (filter (prefix ''#EXT-X-STREAM-INF:'') (split_lines content)) = 1"
proof -
  let ?fp = "file_path file"
  let ?op = "path_join outputDir (path_parse_name (file_filename file))"
  let ?tr = "job_events ?fp ?op md"
  let ?ls = "[audio_rendition_line (language_tag a1) 0, audio_rendition_line (language_tag a2) 1,
        subtitle_rendition_line (language_tag s) 0, variant_line, variant_uri_line 0]"
  from indices_singleton [OF v(1)] obtain kv where
    kv: "indices_of_type ''video'' md = [kv]" "md ! kv = v" by blast
  from indices_pair [OF a(1)] obtain k1 k2 where
    ka: "indices_of_type ''audio'' md = [k1, k2]" "md ! k1 = a1" "md ! k2 = a2" by blast
  from indices_singleton [OF s(1)] obtain ks where
    ks: "indices_of_type ''subtitle'' md = [ks]" "md ! ks = s" by blast
  have ty: "codec_type a1 = ''audio''" "codec_type a2 = ''audio''"
    using ka indices_of_typeD [of k1 "''audio''" md] indices_of_typeD [of k2 "''audio''" md]
    by auto
  have runs: "runs ?tr =
      [video_command ?fp ?op 0 kv True,
       audio_command ?fp ?op 0 k1 (codec_name a1 = ''aac''),
       audio_command ?fp ?op 1 k2 (codec_name a2 = ''aac''),
       subtitle_command ?fp ?op 0 ks]"
    unfolding runs_job_events kv ka ks
    using v(2) s(2) ty
    by (simp add: video_events_def audio_events_def subtitle_events_def kv ka ks)
  have counts: "length (runs ?tr) = 4"
    "length (filter video_passthrough (runs ?tr)) = 1"
    "length (filter audio_passthrough (runs ?tr)) = 1"
    "length (filter audio_reencode (runs ?tr)) = 1"
    "length (filter subtitle_transcode (runs ?tr)) = 1"
    unfolding runs using a(2) by auto
  have run: "upload w outputDir file [] =
      (Json ''Video processed with all streams.''
         (''/streams/'' @ path_parse_name (file_filename file) @ ''/master.m3u8''), ?tr)"
    by (rule upload_succeeds [OF st ok])
  have lines: "manifest_text_lines md = ?ls"
    using s(2)
    by (simp add: manifest_text_lines_def accepted_subtitles_def streams_of_type_def
        unsupported_subtitle_def v(1) a(1) s(1))
  from written_master_lines [OF st run tags] obtain content where
    w: "written (?op @ ''/master.m3u8'') ?tr = Some content"
    and l: "split_lines content = ?ls"
    unfolding lines by auto
  have kinds: "length (filter (prefix ''#EXT-X-MEDIA:TYPE=AUDIO,'') (split_lines content)) = 2"
    "length (filter (prefix ''#EXT-X-MEDIA:TYPE=SUBTITLES,'') (split_lines content)) = 1"
    "length (filter (prefix ''#EXT-X-STREAM-INF:'') (split_lines content)) = 1"
    unfolding l by simp_all
  show ?thesis
    by (intro exI conjI) (rule run counts w l kinds)+
qed

theorem round_trip_witness:
  \<open>\<exists>url tr content.
     upload roundtrip_world ''output'' example_file [] =
       (Json ''Video processed with all streams.'' url, tr) \<and>
     length (runs tr) = 4 \<and>
     length (filter video_passthrough (runs tr)) = 1 \<and>
     length (filter audio_passthrough (runs tr)) = 1 \<and>
     length (filter audio_reencode (runs tr)) = 1 \<and>
     length (filter subtitle_transcode (runs tr)) = 1 \<and>
     written ''output/1700000000000-movie/master.m3u8'' tr = Some content \<and>
     split_lines content =
       [''#EXT-X-MEDIA:TYPE=AUDIO,GROUP-ID="audio",LANGUAGE="eng",NAME="eng",AUTOSELECT=YES,DEFAULT=YES,URI="audio_0.m3u8"'',
        ''#EXT-X-MEDIA:TYPE=AUDIO,GROUP-ID="audio",LANGUAGE="ger",NAME="ger",AUTOSELECT=YES,DEFAULT=NO,URI="audio_1.m3u8"'',
        ''#EXT-X-MEDIA:TYPE=SUBTITLES,GROUP-ID="subs",LANGUAGE="eng",NAME="eng",AUTOSELECT=YES,DEFAULT=YES,URI="sub_0.m3u8"'',
        ''#EXT-X-STREAM-INF:BANDWIDTH=4000000,AUDIO="audios",SUBTITLES="subs"'',
        ''video_0.m3u8''] \<and>
     length (filter (prefix ''#EXT-X-MEDIA:TYPE=AUDIO,'') (split_lines content)) = 2 \<and>
     length (filter (prefix ''#EXT-X-MEDIA:TYPE=SUBTITLES,'') (split_lines content)) = 1 \<and>
     length (filter (prefix ''#EXT-X-STREAM-INF:'') (split_lines content)) = 1\<close>
proof -
  have st: "stable roundtrip_world (file_path example_file) roundtrip_container"
    by (simp add: stable_def roundtrip_world_def)
  have ok: "engine_ok roundtrip_world"
    by (simp add: engine_ok_def roundtrip_world_def)
  have v: "filter (\<lambda>s. codec_type s = ''video'') roundtrip_container =
      [\<lparr>codec_type = ''video'', codec_name = ''h264'', language = Some ''und''\<rparr>]"
    by (simp add: roundtrip_container_def)
  have a: "filter (\<lambda>s. codec_type s = ''audio'') roundtrip_container =
      [\<lparr>codec_type = ''audio'', codec_name = ''aac'', language = Some ''eng''\<rparr>,
       \<lparr>codec_type = ''audio'', codec_name = ''eac3'', language = Some ''ger''\<rparr>]"
    by (simp add: roundtrip_container_def)
  have s: "filter (\<lambda>s. codec_type s = ''subtitle'') roundtrip_container =
      [\<lparr>codec_type = ''subtitle'', codec_name = ''ass'', language = Some ''eng''\<rparr>]"
    by (simp add: roundtrip_container_def)
  have t: "single_line_tags roundtrip_container"
    by (simp add: single_line_tags_def roundtrip_container_def language_tag_def)
  from round_trip [OF st ok v _ a _ s _ t, of "''output''"] show ?thesis
    by (simp add: unsupported_subtitle_def language_tag_def example_job_name path_join_def
        audio_rendition_line_def subtitle_rendition_line_def variant_line_def
        variant_uri_line_def)
qed

text \<open>
  Claim C5. The probe is invoked exactly once per job, however many streams the
  container holds. The example job, with one video, two audio and two subtitle streams,
  probes eight times.
\<close>

theorem probed_more_than_once:
  "probe_count (snd (upload example_world ''output'' example_file [])) = 8"
  by code_simp

text \<open>
  Claim C5 as amended. A job that completes has probed once for the analysis, once more
  for every video stream, twice more for every audio stream and once more for every
  subtitle stream, skipped or not.
\<close>

theorem probes_per_job:
  assumes "upload w outputDir file [] = (Json msg url, tr)"
  shows "\<exists>md. ffprobe_result w 0 (file_path file) = Inr md \<and>
           probe_count tr =
             1 + length (streams_of_type ''video'' md) +
             2 * length (streams_of_type ''audio'' md) +
             length (streams_of_type ''subtitle'' md)"
proof -
  let ?fp = "file_path file"
  from upload_cases [OF assms] obtain md ev content where
    md: "ffprobe_result w 0 ?fp = Inr md"
    and tr: "tr = [Probe ?fp, Mkdir (path_join outputDir (path_parse_name (file_filename file)))] @
               ev @ [WriteFile (path_join outputDir (path_parse_name (file_filename file)) @
                 ''/master.m3u8'') content]"
    and n: "probe_count ev =
              length (video (classify md)) + 2 * length (audio (classify md)) +
              length (subtitle (classify md))"
    by auto
  have "probe_count tr = 1 + probe_count ev"
    unfolding tr by (simp add: probe_count_append)
  with n md show ?thesis
    by (simp add: classify_def length_indices_of_type)
qed

theorem probes_per_job_witness:
  "probe_count (snd (upload example_world ''output'' example_file [])) = 1 + 1 + 2 * 2 + 2"
proof -
  have "length (streams_of_type ''video'' example_container) = 1"
    "length (streams_of_type ''audio'' example_container) = 2"
    "length (streams_of_type ''subtitle'' example_container) = 2"
    by (simp_all add: streams_of_type_def example_container_def)
  moreover have "ffprobe_result example_world 0 (file_path example_file) = Inr example_container"
    by (simp add: example_world_def)
  ultimately show ?thesis
    using probes_per_job [OF example_upload] by (simp add: example_upload)
qed

text \<open>
  Claim C6. When a segment generation fails, the job stops there: the failed command is
  the last effect of the job and every command before it ended, the master manifest is
  not written, and the caller gets the server error.
\<close>

theorem generation_failure_aborts:
  assumes run: "upload w outputDir file [] = (resp, tr)"
    and c: "Run c \<in> set tr"
    and fails: "ffmpeg_result w c \<noteq> None"
  shows "resp = Status500 ''Error processing video.'' \<and>
         (\<exists>pre. tr = pre @ [Run c] \<and> ok_trace w pre) \<and>
         (\<forall>content.
            WriteFile (path_join outputDir (path_parse_name (file_filename file)) @
              ''/master.m3u8'') content \<notin> set tr)"
proof -
  let ?fp = "file_path file"
  let ?op = "path_join outputDir (path_parse_name (file_filename file))"
  from c have "tr \<noteq> [Probe ?fp]" by auto
  with upload_cases [OF run] obtain ev where
    L: "\<forall>e\<in>set ev. loop_event ?fp ?op e"
    and alt: "resp = Status500 ''Error processing video.'' \<and>
              tr = [Probe ?fp, Mkdir ?op] @ ev \<and> (ok_trace w ev \<or> aborted w ev) \<or>
              (\<exists>content. tr = [Probe ?fp, Mkdir ?op] @ ev @
                 [WriteFile (?op @ ''/master.m3u8'') content]) \<and> ok_trace w ev"
    by auto
  have not_ok: "\<not> ok_trace w tr"
    using c fails by (auto dest: ok_trace_Run)
  from alt have resp: "resp = Status500 ''Error processing video.''"
    and tr: "tr = [Probe ?fp, Mkdir ?op] @ ev" and ab: "aborted w ev"
    using not_ok by (auto simp: ok_trace_append)
  from ab obtain pre c' where ev: "ev = pre @ [Run c']" and pre: "ok_trace w pre"
    by (auto simp: aborted_def)
  have ok: "ok_trace w ([Probe ?fp, Mkdir ?op] @ pre)"
    using pre by simp
  have "c = c'"
  proof (rule ccontr)
    assume "c \<noteq> c'"
    with c tr ev have "Run c \<in> set ([Probe ?fp, Mkdir ?op] @ pre)" by auto
    with ok fails show False by (auto dest: ok_trace_Run)
  qed
  with tr ev have "tr = ([Probe ?fp, Mkdir ?op] @ pre) @ [Run c]" by simp
  with ok have last: "\<exists>pre. tr = pre @ [Run c] \<and> ok_trace w pre" by blast
  have "WriteFile (?op @ ''/master.m3u8'') content \<notin> set tr" for content
  proof
    assume "WriteFile (?op @ ''/master.m3u8'') content \<in> set tr"
    with tr have "WriteFile (?op @ ''/master.m3u8'') content \<in> set ev" by simp
    with L have "loop_event ?fp ?op (WriteFile (?op @ ''/master.m3u8'') content)" by blast
    then show False by (auto dest: loop_event_not_master)
  qed
  with resp last show ?thesis by blast
qed

theorem generation_failure_aborts_witness:
  "fst (upload failing_world ''output'' example_file []) = Status500 ''Error processing video.'' \<and>
   last (snd (upload failing_world ''output'' example_file [])) =
     Run (audio_command ''uploads/1700000000000-movie.mkv'' ''output/1700000000000-movie''
            1 2 False) \<and>
   (\<forall>content. WriteFile ''output/1700000000000-movie/master.m3u8'' content
      \<notin> set (snd (upload failing_world ''output'' example_file [])))"
proof -
  let ?c = "audio_command ''uploads/1700000000000-movie.mkv'' ''output/1700000000000-movie''
              1 2 False"
  have f: "ffmpeg_result failing_world ?c \<noteq> None"
    by (simp add: failing_world_def option_value_def audio_command_def)
  have m: "Run ?c \<in> set (snd (upload failing_world ''output'' example_file []))"
    by (simp add: failing_upload)
  have "upload failing_world ''output'' example_file [] =
      (fst (upload failing_world ''output'' example_file []),
       snd (upload failing_world ''output'' example_file []))"
    by simp
  from generation_failure_aborts [OF this m f] show ?thesis
    by (auto simp: example_job_name path_join_def)
qed

text \<open>
  Claim C7. The output directory of a job is created only after the initial stream
  analysis has succeeded: when the first probe fails, the upload answers the server error
  and the probe is the only effect; when it succeeds, the directory is created right
  after it, once.
\<close>

theorem output_directory_after_analysis:
  assumes "upload w outputDir file [] = (resp, tr)"
  shows "case ffprobe_result w 0 (file_path file) of
           Inl err \<Rightarrow>
             resp = Status500 ''Error processing video.'' \<and> tr = [Probe (file_path file)]
         | Inr md \<Rightarrow>
             (\<exists>rest.
                tr = [Probe (file_path file),
                      Mkdir (path_join outputDir (path_parse_name (file_filename file)))] @ rest \<and>
                (\<forall>e\<in>set rest. \<not> is_mkdir e))"
proof (cases "ffprobe_result w 0 (file_path file)")
  case (Inl err)
  with upload_cases [OF assms] show ?thesis by auto
next
  case (Inr md)
  let ?fp = "file_path file"
  let ?op = "path_join outputDir (path_parse_name (file_filename file))"
  from upload_cases [OF assms] Inr obtain ev where
    L: "\<forall>e\<in>set ev. loop_event ?fp ?op e"
    and tr: "tr = [Probe ?fp, Mkdir ?op] @ ev \<or>
             (\<exists>text. tr = [Probe ?fp, Mkdir ?op] @ ev @ [WriteFile (?op @ ''/master.m3u8'') text])"
    by auto
  from L have nm: "\<forall>e\<in>set ev. \<not> is_mkdir e"
    by (blast dest: loop_event_not_mkdir)
  from tr have "\<exists>rest. tr = [Probe ?fp, Mkdir ?op] @ rest \<and> (\<forall>e\<in>set rest. \<not> is_mkdir e)"
  proof
    assume "tr = [Probe ?fp, Mkdir ?op] @ ev"
    with nm show ?thesis by blast
  next
    assume "\<exists>text. tr = [Probe ?fp, Mkdir ?op] @ ev @ [WriteFile (?op @ ''/master.m3u8'') text]"
    then obtain content where
      "tr = [Probe ?fp, Mkdir ?op] @ (ev @ [WriteFile (?op @ ''/master.m3u8'') content])"
      by auto
    moreover have
      "\<forall>e\<in>set (ev @ [WriteFile (?op @ ''/master.m3u8'') content]). \<not> is_mkdir e"
      using nm by simp
    ultimately show ?thesis by blast
  qed
  with Inr show ?thesis by simp
qed

theorem output_directory_after_analysis_witness:
  "upload unreadable_world ''output'' example_file [] =
     (Status500 ''Error processing video.'', [Probe ''uploads/1700000000000-movie.mkv'']) \<and>
   (\<exists>rest. snd (upload example_world ''output'' example_file []) =
      [Probe ''uploads/1700000000000-movie.mkv'', Mkdir ''output/1700000000000-movie''] @ rest \<and>
      (\<forall>e\<in>set rest. \<not> is_mkdir e))"
proof -
  have u: "ffprobe_result unreadable_world 0 (file_path example_file) =
      Inl ''Invalid data found when processing input''"
    by (simp add: unreadable_world_def)
  have e: "ffprobe_result example_world 0 (file_path example_file) = Inr example_container"
    by (simp add: example_world_def)
  have "upload unreadable_world ''output'' example_file [] =
      (fst (upload unreadable_world ''output'' example_file []),
       snd (upload unreadable_world ''output'' example_file []))"
    by simp
  from output_directory_after_analysis [OF this] u
  have 1: "upload unreadable_world ''output'' example_file [] =
      (Status500 ''Error processing video.'', [Probe ''uploads/1700000000000-movie.mkv''])"
    by (simp add: example_path prod_eq_iff)
  from output_directory_after_analysis [OF example_upload] e
  have 2: "\<exists>rest. snd (upload example_world ''output'' example_file []) =
      [Probe ''uploads/1700000000000-movie.mkv'', Mkdir ''output/1700000000000-movie''] @ rest \<and>
      (\<forall>e\<in>set rest. \<not> is_mkdir e)"
    by (simp add: example_upload example_path example_job_name path_join_def)
  from 1 2 show ?thesis by blast
qed

text \<open>
  Claim C8. In a completed job whose probes all answer the stream list \<open>md\<close>, the stream
  with type-local index \<open>i\<close> of type video or audio is generated by one command whose playlist is \<^verbatim>\<open><type>_<i>.m3u8\<close>, whose segment pattern is
  \<^verbatim>\<open><type>_<i>_%03d.ts\<close> (the engine replaces \<^verbatim>\<open>%03d\<close> by the sequence number),
  with segment duration 10 and list size 0, which keeps every segment in the playlist.
  An accepted subtitle stream gets the track \<^verbatim>\<open>sub_<i>.vtt\<close> and the playlist
  \<^verbatim>\<open>sub_<i>.m3u8\<close>.
\<close>

theorem segment_naming:
  assumes st: "stable w (file_path file) md"
    and run: "upload w outputDir file [] = (Json msg url, tr)"
    and i: "nth_of_type ty md i k"
  shows "(ty = ''video'' \<or> ty = ''audio'' \<longrightarrow>
            (\<exists>c. commands_for k tr = [c] \<and>
                 segmented ty (path_join outputDir (path_parse_name (file_filename file))) i c)) \<and>
         (ty = ''subtitle'' \<and> \<not> unsupported_subtitle (codec_name (md ! k)) \<longrightarrow>
            (\<exists>c. commands_for k tr = [c] \<and>
                 subtitle_track (path_join outputDir (path_parse_name (file_filename file))) i c) \<and>
            WriteFile
              (path_join outputDir (path_parse_name (file_filename file)) @
                 ''/sub_'' @ string_of_nat i @ ''.m3u8'')
              (m3u8Content i) \<in> set tr)"
proof -
  let ?fp = "file_path file"
  let ?op = "path_join outputDir (path_parse_name (file_filename file))"
  from upload_completed [OF st run] have tr: "tr = job_events ?fp ?op md" by simp
  note c = commands_for_nth_of_type [OF i, of ?fp ?op]
  have v: "segmented ''video'' ?op i (video_command ?fp ?op i k b)" for b
    by (simp add: segmented_def option_value_def video_command_def)
  have a: "segmented ''audio'' ?op i (audio_command ?fp ?op i k b)" for b
    by (simp add: segmented_def option_value_def audio_command_def)
  have s: "subtitle_track ?op i (subtitle_command ?fp ?op i k)"
    by (simp add: subtitle_track_def option_value_def subtitle_command_def)
  have wr: "WriteFile (?op @ ''/sub_'' @ string_of_nat i @ ''.m3u8'') (m3u8Content i) \<in> set tr"
    if "ty = ''subtitle''" "\<not> unsupported_subtitle (codec_name (md ! k))"
  proof -
    have "WriteFile (?op @ ''/sub_'' @ string_of_nat i @ ''.m3u8'') (m3u8Content i)
        \<in> set (subtitle_events ?fp ?op md (i, k))"
      using that(2) by (simp add: subtitle_events_def)
    with subtitle_events_in_job [OF i [unfolded that(1)], of ?fp ?op] show ?thesis
      unfolding tr by blast
  qed
  show ?thesis
    unfolding tr c using v a s wr [unfolded tr] by auto
qed

theorem segment_naming_witness:
  "(\<exists>c. commands_for 2 (snd (upload example_world ''output'' example_file [])) = [c] \<and>
        segmented ''audio'' ''output/1700000000000-movie'' 1 c) \<and>
   (\<exists>c. commands_for 4 (snd (upload example_world ''output'' example_file [])) = [c] \<and>
        subtitle_track ''output/1700000000000-movie'' 1 c) \<and>
   WriteFile ''output/1700000000000-movie/sub_1.m3u8'' (m3u8Content 1)
     \<in> set (snd (upload example_world ''output'' example_file []))"
proof -
  have a: "nth_of_type ''audio'' example_container 1 2"
    by (simp add: nth_of_type_def indices_of_type_def example_container_def)
  have s: "nth_of_type ''subtitle'' example_container 1 4"
    by (simp add: nth_of_type_def indices_of_type_def example_container_def)
  have u: "\<not> unsupported_subtitle (codec_name (example_container ! 4))"
    by (simp add: unsupported_subtitle_def example_container_def)
  from segment_naming [OF example_stable example_upload a]
    segment_naming [OF example_stable example_upload s] u
  show ?thesis
    by (simp add: example_upload example_job_name path_join_def)
qed

text \<open>
  Claim C9. Two submissions of the same source file get distinct job identifiers. The
  identifier is the stored file name without its extension, and the stored file name is
  the millisecond clock value followed by the original name: two submissions of one file
  in the same millisecond get the same identifier.
\<close>

theorem job_identifiers_collide:
  "job_identifiers ''movie.mkv'' [1700000000000, 1700000000000] =
     [''1700000000000-movie'', ''1700000000000-movie''] \<and>
   \<not> distinct (job_identifiers ''movie.mkv'' [1700000000000, 1700000000000])"
  by (simp add: job_identifiers_def job_identifier_def storage_filename_def
      path_parse_name_def path_base_def before_last_dot_def string_of_nat.simps digit_def)

text \<open>
  Claim C9 as amended. Submissions of the same source file whose clock values differ
  pairwise get pairwise distinct job identifiers, for an original name without a slash
  (the upload middleware passes the base name only).
\<close>

theorem job_identifiers_distinct:
  assumes "CHR ''/'' \<notin> set originalname" and "distinct nows"
  shows "distinct (job_identifiers originalname nows)"
proof -
  have "inj_on (\<lambda>now. job_identifier now originalname) (set nows)"
    by (rule inj_onI) (rule job_identifier_inj [OF assms(1)])
  with assms(2) show ?thesis
    by (simp add: job_identifiers_def distinct_map)
qed

theorem job_identifiers_distinct_witness:
  "CHR ''/'' \<notin> set ''movie.mkv'' \<and> distinct [1700000000000, 1700000000001 :: nat] \<and>
   distinct (job_identifiers ''movie.mkv'' [1700000000000, 1700000000001])"
  using job_identifiers_distinct [of "''movie.mkv''" "[1700000000000, 1700000000001]"]
  by simp

text \<open>
  Claim C10. For every completed job, whose probes all answer the stream list \<open>md\<close>, the
  text of the master manifest is the audio, subtitle and video entries joined by single newline characters: it begins with the
  first entry, it has no \<^verbatim>\<open>#EXTM3U\<close> header, and it does not end with a newline.
\<close>

theorem master_text:
  assumes "stable w (file_path file) md"
    and "upload w outputDir file [] = (Json msg url, tr)"
  shows "written (path_join outputDir (path_parse_name (file_filename file)) @ ''/master.m3u8'') tr =
           Some (join nl (spec_manifest_lines md)) \<and>
         \<not> prefix ''#EXTM3U'' (join nl (spec_manifest_lines md)) \<and>
         (spec_manifest_lines md \<noteq> [] \<longrightarrow>
            prefix (hd (spec_manifest_lines md)) (join nl (spec_manifest_lines md)) \<and>
            last (join nl (spec_manifest_lines md)) \<noteq> nl) \<and>
         (spec_manifest_lines md = [] \<longrightarrow> join nl (spec_manifest_lines md) = [])"
proof -
  let ?ls = "spec_manifest_lines md"
  have w: "written (path_join outputDir (path_parse_name (file_filename file)) @
      ''/master.m3u8'') tr = Some (join nl ?ls)"
    using upload_completed [OF assms] by (simp add: written_job_events)
  have nonempty: "prefix (hd ?ls) (join nl ?ls) \<and> last (join nl ?ls) \<noteq> nl \<and>
      \<not> prefix ''#EXTM3U'' (join nl ?ls)" if ne: "?ls \<noteq> []"
  proof -
    from ne obtain x xs where ls: "?ls = x # xs" by (cases ?ls) auto
    have p: "prefix (hd ?ls) (join nl ?ls)"
      unfolding ls by (simp add: join_prefix)
    have "last ?ls \<in> set ?ls" using ne by simp
    from manifest_line_shape [OF this] have "last ?ls \<noteq> []" "last (last ?ls) \<noteq> nl"
      by simp_all
    with ne have l: "last (join nl ?ls) \<noteq> nl"
      by (simp add: last_join)
    have "hd ?ls \<in> set ?ls" using ne by simp
    from manifest_line_shape [OF this] have "prefix ''#EXT-X-'' (hd ?ls)" by simp
    from this p have "prefix ''#EXT-X-'' (join nl ?ls)" by (rule prefix_order.trans)
    then obtain zs where "join nl ?ls = ''#EXT-X-'' @ zs" by (auto simp: prefix_def)
    then have "\<not> prefix ''#EXTM3U'' (join nl ?ls)" by simp
    with p l show ?thesis by simp
  qed
  have empty: "\<not> prefix ''#EXTM3U'' (join nl ?ls)" if "?ls = []"
    using that by simp
  from w nonempty empty show ?thesis by (cases "?ls = []") simp_all
qed

theorem master_text_witness:
  "written ''output/1700000000000-movie/master.m3u8''
     (snd (upload example_world ''output'' example_file [])) =
     Some (audio_entry ''eng'' 0 @ [nl] @ audio_entry ''und'' 1 @ [nl] @
           subtitle_entry ''fre'' 1 @ [nl] @ video_entry 0) \<and>
   \<not> prefix ''#EXTM3U'' (audio_entry ''eng'' 0 @ [nl] @ audio_entry ''und'' 1 @ [nl] @
           subtitle_entry ''fre'' 1 @ [nl] @ video_entry 0) \<and>
   last (audio_entry ''eng'' 0 @ [nl] @ audio_entry ''und'' 1 @ [nl] @
           subtitle_entry ''fre'' 1 @ [nl] @ video_entry 0) \<noteq> nl"
proof -
  have ls: "spec_manifest_lines example_container =
      [audio_entry ''eng'' 0, audio_entry ''und'' 1, subtitle_entry ''fre'' 1, video_entry 0]"
    by (simp add: spec_manifest_lines_def example_audio_lines example_subtitle_lines
        example_video_lines)
  from master_text [OF example_stable example_upload] show ?thesis
    by (simp add: ls example_upload example_job_name path_join_def)
qed

end
